theory Spec2Isabelle
  imports Complex_Main "HOL-Library.Char_ord" "HOL-Library.List_Lexorder" "HOL-Library.Log_Nat"
begin

section \<open>Python values and string built-ins\<close>

text \<open>
  A Python \<open>str\<close> is modelled as a \<open>string\<close> whose characters are the code points
  0 to 255. On that range the built-ins below agree with CPython: \<open>str.isspace\<close> holds
  for 9-13, 28-32, 133 and 160; \<open>str.isalnum\<close> for the digits, the ASCII letters and the
  Latin-1 letters and numerals; \<open>str.lower\<close> adds 32 to 65-90, 192-214 and 216-222.
  String comparison is lexicographic on code points (\<open>Char_ord\<close>, \<open>List_Lexorder\<close>).
\<close>

datatype error = TypeError | IndexError | KeyError

datatype pyval = PyNone | PyBool bool | PyInt int | PyStr string | PyList "pyval list"

definition isspace :: "char \<Rightarrow> bool" where
  "isspace c = (let n = (of_char c :: nat)
                in (9 \<le> n \<and> n \<le> 13) \<or> (28 \<le> n \<and> n \<le> 32) \<or> n = 133 \<or> n = 160)"


definition lower_char :: "char \<Rightarrow> char" where
  "lower_char c = (let n = (of_char c :: nat)
                   in if (65 \<le> n \<and> n \<le> 90) \<or> (192 \<le> n \<and> n \<le> 214) \<or> (216 \<le> n \<and> n \<le> 222)
                      then char_of (n + 32) else c)"

definition lower :: "string \<Rightarrow> string" where
  "lower s = map lower_char s"

definition strip :: "string \<Rightarrow> string" where
  "strip s = rev (dropWhile isspace (rev (dropWhile isspace s)))"

text \<open>\<open>s.split()\<close>: the maximal runs of non-whitespace characters, in order.\<close>

fun split_from :: "string \<Rightarrow> string \<Rightarrow> string list" where
  "split_from cur [] = (if cur = [] then [] else [cur])"
| "split_from cur (c # cs) =
     (if isspace c then (if cur = [] then split_from [] cs else cur # split_from [] cs)
      else split_from (cur @ [c]) cs)"

definition split :: "string \<Rightarrow> string list" where
  "split s = split_from [] s"

text \<open>\<open>sub in s\<close> on strings.\<close>

fun contains :: "string \<Rightarrow> string \<Rightarrow> bool" where
  "contains sub [] = (sub = [])"
| "contains sub (c # cs) = (take (length sub) (c # cs) = sub \<or> contains sub cs)"

text \<open>
  List subscription \<open>xs[i]\<close>. For \<open>-len(xs) \<le> i < 0\<close> the element is taken
  at \<open>len(xs) + i\<close>; outside \<open>-len(xs) \<le> i < len(xs)\<close> Python raises.
\<close>

definition py_index :: "'a list \<Rightarrow> int \<Rightarrow> error + 'a" where
  "py_index xs i =
     (if 0 \<le> i \<and> i < int (length xs) then Inr (xs ! nat i)
      else if i < 0 \<and> - int (length xs) \<le> i then Inr (xs ! nat (int (length xs) + i))
      else Inl IndexError)"

text \<open>\<open>list(dict.fromkeys(xs))\<close>: the first occurrence of every element, in order.\<close>

definition fromkeys :: "'a list \<Rightarrow> 'a list" where
  "fromkeys xs = rev (remdups (rev xs))"

section \<open>memory\_manager.py: the state\<close>

record MemoryNote =
  note_text :: string
  last_update_date :: string
  note_keywords :: "string list"

text \<open>
  The dictionary \<open>MemoryNote.to_dict\<close> produces and \<open>MemoryNote.from_dict\<close> reads:
  the three keys \<open>text\<close>, \<open>last_update_date\<close> and \<open>keywords\<close>.
\<close>

datatype note_dict = NoteDict (nd_text: string) (nd_date: string) (nd_keywords: "string list")

definition to_dict :: "MemoryNote \<Rightarrow> note_dict" where
  "to_dict n = NoteDict (note_text n) (last_update_date n) (note_keywords n)"

definition from_dict :: "note_dict \<Rightarrow> MemoryNote" where
  "from_dict d = \<lparr>note_text = nd_text d, last_update_date = nd_date d, note_keywords = nd_keywords d\<rparr>"

text \<open>
  A memory scope is a dictionary \<open>{"notes": [...]}\<close>. The code tells three shapes
  apart: the key is absent, its value is \<open>None\<close>, or its value is a list of note
  dictionaries.
\<close>

datatype memory = NoNotesKey | NotesNone | Notes "note_dict list"

record history_entry =
  timestamp :: string
  chart_type :: string
  story_summary :: string
  success :: bool
  code_preview :: "string option"

record PlotlyAgentState =
  user_id :: string
  profile :: "string \<rightharpoonup> pyval"
  global_memory :: memory
  session_memory :: memory
  visualization_history :: "history_entry list"
  system_frontmatter :: string
  global_memories_md :: string
  session_memories_md :: string
  inject_session_memories_next_turn :: bool

definition default_profile :: "string \<rightharpoonup> pyval" where
  "default_profile =
     [''preferred_chart_types'' \<mapsto> PyList [],
      ''color_scheme'' \<mapsto> PyStr ''default'',
      ''audience'' \<mapsto> PyStr ''general'',
      ''domain'' \<mapsto> PyNone,
      ''technical_level'' \<mapsto> PyStr ''intermediate'']"

definition create_default :: "string \<Rightarrow> PlotlyAgentState" where
  "create_default uid =
     \<lparr>user_id = uid, profile = default_profile,
      global_memory = Notes [], session_memory = Notes [],
      visualization_history = [],
      system_frontmatter = [], global_memories_md = [], session_memories_md = [],
      inject_session_memories_next_turn = False\<rparr>"

section \<open>memory\_manager.py: operations\<close>

text \<open>
  \<open>[k.strip().lower() for k in keywords if isinstance(k, str) and k.strip()][:5]\<close>
\<close>

definition clean_keyword :: "pyval \<Rightarrow> string list" where
  "clean_keyword k =
     (case k of PyStr s \<Rightarrow> (if strip s \<noteq> [] then [lower (strip s)] else []) | _ \<Rightarrow> [])"

definition clean_keywords :: "pyval list \<Rightarrow> string list" where
  "clean_keywords ks = take 5 (concat (map clean_keyword ks))"

text \<open>
  The guard \<open>"notes" not in mem or mem["notes"] is None\<close> replaces a missing or
  \<open>None\<close> value by the empty list before the append.
\<close>

definition append_note :: "memory \<Rightarrow> note_dict \<Rightarrow> memory" where
  "append_note mem d =
     (case mem of
        NoNotesKey \<Rightarrow> Notes ([] @ [d])
      | NotesNone \<Rightarrow> Notes ([] @ [d])
      | Notes ns \<Rightarrow> Notes (ns @ [d]))"

text \<open>\<open>today\<close> is the value of \<open>today_iso_utc()\<close> at the call.\<close>

definition add_memory_note ::
  "PlotlyAgentState \<Rightarrow> string \<Rightarrow> string \<Rightarrow> pyval list \<Rightarrow> bool \<Rightarrow> MemoryNote \<times> PlotlyAgentState" where
  "add_memory_note state today txt kws to_session =
     (let note = \<lparr>note_text = strip txt, last_update_date = today,
                  note_keywords = clean_keywords kws\<rparr>
      in if to_session
         then (note, state\<lparr>session_memory := append_note (session_memory state) (to_dict note)\<rparr>)
         else (note, state\<lparr>global_memory := append_note (global_memory state) (to_dict note)\<rparr>))"


text \<open>
  \<open>now\<close> is the value of \<open>datetime.now(timezone.utc).isoformat()\<close> at the call;
  \<open>if code_snippet:\<close> holds for a non-empty string only.
\<close>

definition new_history_entry ::
  "string \<Rightarrow> string \<Rightarrow> string \<Rightarrow> string option \<Rightarrow> bool \<Rightarrow> history_entry" where
  "new_history_entry now ctype summary code_snippet ok =
     (let entry = \<lparr>timestamp = now, chart_type = ctype, story_summary = summary,
                   success = ok, code_preview = None\<rparr>
      in case code_snippet of
           None \<Rightarrow> entry
         | Some c \<Rightarrow> if c \<noteq> [] then entry\<lparr>code_preview := Some (take 200 c)\<rparr> else entry)"

definition add_visualization_to_history ::
  "PlotlyAgentState \<Rightarrow> string \<Rightarrow> string \<Rightarrow> string \<Rightarrow> string option \<Rightarrow> bool \<Rightarrow> PlotlyAgentState" where
  "add_visualization_to_history state now ctype summary code_snippet ok =
     (let h = visualization_history state @ [new_history_entry now ctype summary code_snippet ok]
      in if length h > 50
         then state\<lparr>visualization_history := drop (length h - 50) h\<rparr>
         else state\<lparr>visualization_history := h\<rparr>)"

text \<open>A sequence of calls, each given by its arguments (and the clock value it reads).\<close>

type_synonym history_call = "string \<times> string \<times> string \<times> string option \<times> bool"

definition entry_of_call :: "history_call \<Rightarrow> history_entry" where
  "entry_of_call c = (case c of (now, ctype, summary, code_snippet, ok) \<Rightarrow>
                        new_history_entry now ctype summary code_snippet ok)"

fun add_visualizations :: "PlotlyAgentState \<Rightarrow> history_call list \<Rightarrow> PlotlyAgentState" where
  "add_visualizations state [] = state"
| "add_visualizations state (c # cs) =
     add_visualizations
       (case c of (now, ctype, summary, code_snippet, ok) \<Rightarrow>
          add_visualization_to_history state now ctype summary code_snippet ok) cs"

text \<open>Fifty-one calls with pairwise different summaries.\<close>

definition calls51 :: "history_call list" where
  "calls51 = map (\<lambda>n. (''2024-01-01'', ''bar'', replicate n CHR ''x'', None, True)) [0..<51]"

text \<open>
  The list a memory scope holds; a missing \<open>"notes"\<close> key and the value \<open>None\<close>
  hold no notes.
\<close>

definition notes_of :: "memory \<Rightarrow> note_dict list" where
  "notes_of mem = (case mem of Notes ns \<Rightarrow> ns | _ \<Rightarrow> [])"

text \<open>The elements of a keyword argument that are strings, in order.\<close>

definition keyword_strings :: "pyval list \<Rightarrow> string list" where
  "keyword_strings ks = concat (map (\<lambda>k. case k of PyStr s \<Rightarrow> [s] | _ \<Rightarrow> []) ks)"

section \<open>context\_trimmer.py\<close>

text \<open>
  A conversation message is a dictionary read with \<open>m.get('role')\<close> and
  \<open>m.get('content', '')\<close>; \<open>None\<close> stands for a missing key.
\<close>

record message =
  role :: "string option"
  content :: "string option"

definition DEFAULT_MAX_TURNS :: int where
  "DEFAULT_MAX_TURNS = 10"

definition MIN_TURNS_TO_KEEP :: int where
  "MIN_TURNS_TO_KEEP = 3"

definition is_user :: "message \<Rightarrow> bool" where
  "is_user m = (role m = Some ''user'')"

definition should_trim_conversation :: "message list \<Rightarrow> int \<Rightarrow> bool" where
  "should_trim_conversation conversation_history max_turns =
     (let user_messages = filter is_user conversation_history
      in int (length user_messages) > max_turns)"

text \<open>\<open>[i for i, m in enumerate(conversation_history) if m.get('role') == 'user']\<close>\<close>

definition user_indices_of :: "message list \<Rightarrow> nat list" where
  "user_indices_of conversation_history =
     map fst (filter (\<lambda>(i, m). is_user m) (enumerate 0 conversation_history))"

text \<open>\<open>sep.join(xs)\<close>\<close>

fun join :: "string \<Rightarrow> string list \<Rightarrow> string" where
  "join sep [] = []"
| "join sep [x] = x"
| "join sep (x # y # ys) = x @ sep @ join sep (y # ys)"

definition chart_types :: "string list" where
  "chart_types = [''bar'', ''line'', ''scatter'', ''pie'', ''histogram'']"

text \<open>The context points one message contributes, in the order the loop body appends them.\<close>

definition context_points_of :: "message \<Rightarrow> string list" where
  "context_points_of msg =
     (let raw = (case content msg of None \<Rightarrow> [] | Some c \<Rightarrow> c);
          cont = lower raw;
          data_points =
            (if contains ''upload'' cont \<or> contains ''data'' cont
             then (if is_user msg then [''User uploaded/discussed data''] else [])
             else []);
          preference_points =
            (if is_user msg \<and> (contains ''prefer'' cont \<or> contains ''like'' cont \<or> contains ''want'' cont)
             then [''User stated: '' @ take 100 raw @ ''...'']
             else []);
          chart_points =
            (case find (\<lambda>ct. contains ct cont) chart_types of
               None \<Rightarrow> []
             | Some ct \<Rightarrow> [''Discussed '' @ ct @ '' charts''])
      in data_points @ preference_points @ chart_points)"

definition extract_context_from_trimmed :: "message list \<Rightarrow> string" where
  "extract_context_from_trimmed messages =
     (let context_points = concat (map context_points_of messages)
      in if context_points = []
         then ''Earlier conversation trimmed (no specific context preserved)''
         else (let unique_points = take 5 (fromkeys context_points)
               in ''Earlier in conversation: '' @ join ''; '' unique_points))"

text \<open>
  \<open>trim_conversation\<close> returns the kept messages, the number of removed messages and
  the state it has updated; \<open>user_indices[-(max_turns)]\<close> can raise \<open>IndexError\<close>.
  \<open>today\<close> is the date \<open>add_memory_note\<close> reads.
\<close>

definition trim_conversation ::
  "message list \<Rightarrow> PlotlyAgentState \<Rightarrow> string \<Rightarrow> int \<Rightarrow> bool
     \<Rightarrow> error + (message list \<times> nat \<times> PlotlyAgentState)" where
  "trim_conversation conversation_history state today max_turns preserve_context =
     (if \<not> should_trim_conversation conversation_history max_turns
      then Inr (conversation_history, 0, state)
      else
        (let user_indices = user_indices_of conversation_history
         in if int (length user_indices) \<le> max_turns
            then Inr (conversation_history, 0, state)
            else
              (case py_index user_indices (- max_turns) of
                 Inl e \<Rightarrow> Inl e
               | Inr cutoff_index \<Rightarrow>
                   (let trimmed_messages = take cutoff_index conversation_history;
                        kept_messages = drop cutoff_index conversation_history;
                        state' =
                          (if preserve_context \<and> trimmed_messages \<noteq> []
                           then
                             (let context_summary = extract_context_from_trimmed trimmed_messages;
                                  state1 =
                                    (if context_summary \<noteq> []
                                     then snd (add_memory_note state today context_summary
                                                 [PyStr ''context'', PyStr ''conversation''] True)
                                     else state)
                              in state1\<lparr>inject_session_memories_next_turn := True\<rparr>)
                           else state)
                    in Inr (kept_messages, length trimmed_messages, state')))))"

text \<open>Two calls in a row, with nothing added in between: the first result, then the second.\<close>

definition trim_twice ::
  "message list \<Rightarrow> PlotlyAgentState \<Rightarrow> string \<Rightarrow> int \<Rightarrow> bool
     \<Rightarrow> error + ((message list \<times> nat) \<times> (message list \<times> nat))" where
  "trim_twice conversation_history state today max_turns preserve_context =
     (case trim_conversation conversation_history state today max_turns preserve_context of
        Inl e \<Rightarrow> Inl e
      | Inr (kept, removed, state') \<Rightarrow>
          (case trim_conversation kept state' today max_turns preserve_context of
             Inl e \<Rightarrow> Inl e
           | Inr (kept2, removed2, state'') \<Rightarrow> Inr ((kept, removed), (kept2, removed2))))"

definition user_msg :: "string \<Rightarrow> message" where
  "user_msg c = \<lparr>role = Some ''user'', content = Some c\<rparr>"

definition assistant_msg :: "string \<Rightarrow> message" where
  "assistant_msg c = \<lparr>role = Some ''assistant'', content = Some c\<rparr>"

text \<open>The kept messages and the removed count of a result, without the state.\<close>

definition kept_and_removed ::
  "error + (message list \<times> nat \<times> PlotlyAgentState) \<Rightarrow> error + (message list \<times> nat)" where
  "kept_and_removed r = (case r of Inl e \<Rightarrow> Inl e | Inr (kept, removed, state) \<Rightarrow> Inr (kept, removed))"

section \<open>Python floats\<close>

text \<open>
  A Python \<open>float\<close> is an IEEE 754 binary64 number. A finite one is modelled by the
  rational it denotes, and every arithmetic operation returns the exact result rounded to
  the nearest number with a 53-bit significand, ties to the even significand. The
  exponent range is not bounded: the scores computed here are quotients of list lengths
  and their combinations, which lie far from overflow and from the subnormal range.
\<close>

text \<open>The exponent \<open>e\<close> of a positive rational \<open>x\<close>: \<open>2^e \<le> x < 2^(e+1)\<close>.\<close>

definition binary_exponent :: "rat \<Rightarrow> int" where
  "binary_exponent x =
     (case quotient_of x of (p, q) \<Rightarrow>
        (let d = bitlen p - bitlen q in if 2 powi d \<le> x then d else d - 1))"

text \<open>Rounding to the nearest integer, a tie going to the even one.\<close>

definition round_half_even :: "rat \<Rightarrow> int" where
  "round_half_even r =
     (let n = \<lfloor>r\<rfloor>; d = r - of_int n
      in if d < 1 / 2 then n
         else if 1 / 2 < d then n + 1
         else if even n then n else n + 1)"

definition round_double :: "rat \<Rightarrow> rat" where
  "round_double x =
     (if x = 0 then 0
      else if x < 0 then
        (let ulp = 2 powi (binary_exponent (- x) - 52)
         in - (of_int (round_half_even (- x / ulp)) * ulp))
      else
        (let ulp = 2 powi (binary_exponent x - 52)
         in of_int (round_half_even (x / ulp)) * ulp))"

text \<open>
  The float operations the code uses: \<open>a * b\<close>, \<open>a + b\<close>, the true division
  \<open>m / n\<close> of two integers (correctly rounded), and a decimal literal.
\<close>

definition float_mult :: "rat \<Rightarrow> rat \<Rightarrow> rat" where
  "float_mult a b = round_double (a * b)"

definition float_add :: "rat \<Rightarrow> rat \<Rightarrow> rat" where
  "float_add a b = round_double (a + b)"

definition int_true_div :: "nat \<Rightarrow> nat \<Rightarrow> rat" where
  "int_true_div m n = round_double (of_nat m / of_nat n)"

definition float_literal :: "rat \<Rightarrow> rat" where
  "float_literal x = round_double x"

section \<open>memory\_consolidation.py\<close>

text \<open>
  \<open>overlap / union\<close> is the true division of two integers; the weights \<open>0.6\<close> and
  \<open>0.4\<close> are float literals, and the products and the sum are float operations.
\<close>

definition calculate_similarity :: "MemoryNote \<Rightarrow> MemoryNote \<Rightarrow> rat" where
  "calculate_similarity note1 note2 =
     (let keywords1 = set (note_keywords note1);
          keywords2 = set (note_keywords note2)
      in if keywords1 = {} \<or> keywords2 = {} then 0
         else
           (let overlap = card (keywords1 \<inter> keywords2);
                union = card (keywords1 \<union> keywords2);
                keyword_similarity = (if union > 0 then int_true_div overlap union else 0);
                words1 = set (split (lower (note_text note1)));
                words2 = set (split (lower (note_text note2)));
                text_overlap = card (words1 \<inter> words2);
                text_union = card (words1 \<union> words2);
                text_similarity = (if text_union > 0 then int_true_div text_overlap text_union else 0)
            in float_add (float_mult (float_literal (6 / 10)) keyword_similarity)
                         (float_mult (float_literal (4 / 10)) text_similarity)))"

text \<open>The default \<open>threshold: float = 0.6\<close> of the functions below.\<close>

definition default_threshold :: rat where
  "default_threshold = float_literal (6 / 10)"

definition are_memories_similar :: "MemoryNote \<Rightarrow> MemoryNote \<Rightarrow> rat \<Rightarrow> bool" where
  "are_memories_similar note1 note2 threshold =
     (let similarity = calculate_similarity note1 note2 in similarity \<ge> threshold)"

text \<open>
  \<open>_merge_similar_notes\<close>: \<open>sorted\<close> is a stable sort on the date string;
  \<open>sorted_notes[-1]\<close> raises \<open>IndexError\<close> on an empty list.
\<close>

definition merge_similar_notes :: "MemoryNote list \<Rightarrow> error + MemoryNote" where
  "merge_similar_notes notes =
     (let sorted_notes = sort_key last_update_date notes
      in case py_index sorted_notes (- 1) of
           Inl e \<Rightarrow> Inl e
         | Inr most_recent \<Rightarrow>
             (let all_keywords = concat (map note_keywords sorted_notes);
                  unique_keywords = take 5 (fromkeys all_keywords)
              in Inr \<lparr>note_text = note_text most_recent,
                      last_update_date = last_update_date most_recent,
                      note_keywords = unique_keywords\<rparr>))"

text \<open>
  The inner loop of \<open>deduplicate_memories\<close> for the note at index \<open>i\<close>: it runs over
  \<open>j = i + 1, ..., len(sorted_notes) - 1\<close> and carries \<open>similar_notes\<close> and
  \<open>merged_indices\<close>.
\<close>

definition similar_step ::
  "MemoryNote list \<Rightarrow> rat \<Rightarrow> MemoryNote \<Rightarrow> nat \<Rightarrow> MemoryNote list \<times> nat set
     \<Rightarrow> MemoryNote list \<times> nat set" where
  "similar_step sorted_notes threshold note j acc =
     (case acc of (similar_notes, merged_indices) \<Rightarrow>
        if j \<notin> merged_indices
        then (if are_memories_similar note (sorted_notes ! j) threshold
              then (similar_notes @ [sorted_notes ! j], insert j merged_indices)
              else (similar_notes, merged_indices))
        else (similar_notes, merged_indices))"

definition find_similar ::
  "MemoryNote list \<Rightarrow> rat \<Rightarrow> nat \<Rightarrow> nat set \<Rightarrow> MemoryNote list \<times> nat set" where
  "find_similar sorted_notes threshold i merged_indices =
     fold (similar_step sorted_notes threshold (sorted_notes ! i))
       [i + 1 ..< length sorted_notes] ([sorted_notes ! i], merged_indices)"

text \<open>
  The outer loop, over the indices still to visit. It carries \<open>merged_indices\<close> and
  \<open>result\<close>.
\<close>

fun dedup_loop ::
  "MemoryNote list \<Rightarrow> rat \<Rightarrow> nat list \<Rightarrow> nat set \<Rightarrow> MemoryNote list
     \<Rightarrow> error + MemoryNote list" where
  "dedup_loop sorted_notes threshold [] merged_indices result = Inr result"
| "dedup_loop sorted_notes threshold (i # is) merged_indices result =
     (if i \<in> merged_indices
      then dedup_loop sorted_notes threshold is merged_indices result
      else
        (case find_similar sorted_notes threshold i merged_indices of
           (similar_notes, merged_indices') \<Rightarrow>
             if length similar_notes > 1
             then (case merge_similar_notes similar_notes of
                     Inl e \<Rightarrow> Inl e
                   | Inr merged \<Rightarrow>
                       dedup_loop sorted_notes threshold is merged_indices' (result @ [merged]))
             else dedup_loop sorted_notes threshold is merged_indices' (result @ [sorted_notes ! i])))"

definition deduplicate_memories :: "MemoryNote list \<Rightarrow> rat \<Rightarrow> error + MemoryNote list" where
  "deduplicate_memories notes threshold =
     (if notes = [] then Inr []
      else
        (let sorted_notes = sort_key last_update_date notes
         in dedup_loop sorted_notes threshold [0 ..< length sorted_notes] {} []))"

text \<open>
  \<open>mem.get("notes", [])\<close> followed by the iteration over the value: a missing key gives
  the empty list, \<open>None\<close> is not iterable.
\<close>

definition get_notes :: "memory \<Rightarrow> error + note_dict list" where
  "get_notes mem =
     (case mem of NoNotesKey \<Rightarrow> Inr [] | NotesNone \<Rightarrow> Inl TypeError | Notes ns \<Rightarrow> Inr ns)"

record consolidation_stats =
  before_count :: int
  after_count :: int
  merged_count :: int
  session_notes_added :: int

definition consolidate_session_memories ::
  "PlotlyAgentState \<Rightarrow> error + (PlotlyAgentState \<times> consolidation_stats)" where
  "consolidate_session_memories state =
     (case get_notes (session_memory state) of
        Inl e \<Rightarrow> Inl e
      | Inr session_notes_dict \<Rightarrow>
          (case get_notes (global_memory state) of
             Inl e \<Rightarrow> Inl e
           | Inr global_notes_dict \<Rightarrow>
               (let session_notes = map from_dict session_notes_dict;
                    global_notes = map from_dict global_notes_dict;
                    before_cnt = int (length global_notes) + int (length session_notes);
                    all_notes = global_notes @ session_notes
                in case deduplicate_memories all_notes default_threshold of
                     Inl e \<Rightarrow> Inl e
                   | Inr deduplicated \<Rightarrow>
                       (let state1 = state\<lparr>global_memory := Notes (map to_dict deduplicated)\<rparr>;
                            state2 = state1\<lparr>session_memory := Notes []\<rparr>;
                            after_cnt = int (length deduplicated)
                        in Inr (state2,
                                \<lparr>before_count = before_cnt, after_count = after_cnt,
                                 merged_count = before_cnt - after_cnt,
                                 session_notes_added = int (length session_notes)\<rparr>)))))"

text \<open>
  The clusters the outer loop forms, one per visited index that is not yet merged: the
  list \<open>similar_notes\<close> of that iteration, whose first element is the note at the index.
\<close>

fun dedup_clusters ::
  "MemoryNote list \<Rightarrow> rat \<Rightarrow> nat list \<Rightarrow> nat set \<Rightarrow> MemoryNote list list" where
  "dedup_clusters sorted_notes threshold [] merged_indices = []"
| "dedup_clusters sorted_notes threshold (i # is) merged_indices =
     (if i \<in> merged_indices
      then dedup_clusters sorted_notes threshold is merged_indices
      else
        (case find_similar sorted_notes threshold i merged_indices of
           (similar_notes, merged_indices') \<Rightarrow>
             similar_notes # dedup_clusters sorted_notes threshold is merged_indices'))"

definition clusters_of :: "MemoryNote list \<Rightarrow> rat \<Rightarrow> MemoryNote list list" where
  "clusters_of notes threshold =
     (let sorted_notes = sort_key last_update_date notes
      in dedup_clusters sorted_notes threshold [0 ..< length sorted_notes] {})"

text \<open>The Jaccard overlap of two sets as an exact fraction, 0 when both are empty.\<close>

definition jaccard :: "'a set \<Rightarrow> 'a set \<Rightarrow> rat" where
  "jaccard A B = (if card (A \<union> B) > 0 then of_nat (card (A \<inter> B)) / of_nat (card (A \<union> B)) else 0)"

definition keyword_set :: "MemoryNote \<Rightarrow> string set" where
  "keyword_set n = set (note_keywords n)"

definition word_set :: "MemoryNote \<Rightarrow> string set" where
  "word_set n = set (split (lower (note_text n)))"

definition mk_note :: "string \<Rightarrow> string \<Rightarrow> string list \<Rightarrow> MemoryNote" where
  "mk_note t d ks = \<lparr>note_text = t, last_update_date = d, note_keywords = ks\<rparr>"

text \<open>
  What one cluster contributes to \<open>result\<close>: the merge of its notes when it has more
  than one, its only note otherwise.
\<close>

definition collapse :: "MemoryNote list \<Rightarrow> MemoryNote" where
  "collapse c =
     (if length c > 1
      then (case merge_similar_notes c of Inr merged \<Rightarrow> merged | Inl e \<Rightarrow> hd c)
      else hd c)"

text \<open>The global notes a consolidation result holds, as \<open>MemoryNote\<close> values.\<close>

definition result_global_notes ::
  "error + (PlotlyAgentState \<times> consolidation_stats) \<Rightarrow> error + MemoryNote list" where
  "result_global_notes r =
     (case r of Inl e \<Rightarrow> Inl e
      | Inr (state, stats) \<Rightarrow> Inr (map from_dict (notes_of (global_memory state))))"

text \<open>A default state whose session holds three notes about bar charts.\<close>

definition bar_state :: PlotlyAgentState where
  "bar_state = (create_default ''u'')\<lparr>session_memory := Notes
     [NoteDict ''User prefers bar charts'' ''2024-01-01'' [''chart_type'', ''bar''],
      NoteDict ''User likes bar charts for comparisons'' ''2024-01-01'' [''chart_type'', ''bar''],
      NoteDict ''User prefers bar chart visualizations'' ''2024-01-01'' [''chart_type'', ''bar'']]\<rparr>"

text \<open>
  Four global notes, oldest first: the second is similar to the first, the third is
  similar to the second but not to the first, the fourth is unrelated.
\<close>

definition dup_notes :: "MemoryNote list" where
  "dup_notes =
     [mk_note ''p q x'' ''2024-01-01'' [''k1''],
      mk_note ''p q r'' ''2024-01-02'' [''k1''],
      mk_note ''p q r'' ''2024-01-03'' [''k1'', ''k2''],
      mk_note ''w'' ''2024-01-04'' [''z'']]"

definition dup_state :: PlotlyAgentState where
  "dup_state = (create_default ''u'')\<lparr>global_memory := Notes (map to_dict dup_notes)\<rparr>"

section \<open>state\_storage.py\<close>

















section \<open>Properties of memory\_manager.py\<close>





subsection \<open>The visualization history\<close>

lemma add_one_history:
  "visualization_history (add_visualization_to_history s now ct su sn ok) =
     drop (length (visualization_history s) + 1 - 50)
       (visualization_history s @ [new_history_entry now ct su sn ok])"
  by (simp add: add_visualization_to_history_def Let_def)

lemma drop_window_step:
  fixes h :: "'a list"
  shows "drop (length (drop (length h + 1 - 50) (h @ [e])) + length es - 50)
           (drop (length h + 1 - 50) (h @ [e]) @ es)
         = drop (length h + Suc (length es) - 50) (h @ e # es)"
proof -
  define x where "x = h @ [e]"
  define b where "b = length x - 50"
  have lx: "length x = length h + 1" by (simp add: x_def)
  have "drop (length (drop b x) + length es - 50) (drop b x @ es)
        = drop (length x + length es - 50) (x @ es)"
  proof (cases "length x \<le> 50")
    case True
    then show ?thesis by (simp add: b_def)
  next
    case False
    then have b: "b \<le> length x" "length x - b = 50" by (simp_all add: b_def)
    have "drop b x @ es = drop b (x @ es)" using b by simp
    then have "drop (length (drop b x) + length es - 50) (drop b x @ es)
        = drop (length es) (drop b (x @ es))"
      using b by simp
    also have "\<dots> = drop (length es + b) (x @ es)"
      by (simp only: drop_drop)
    also have "length es + b = length x + length es - 50"
      using False by (simp add: b_def)
    finally show ?thesis .
  qed
  then show ?thesis by (simp add: x_def b_def)
qed

lemma add_many_history:
  "visualization_history (add_visualizations s (c # cs)) =
     drop (length (visualization_history s) + length (c # cs) - 50)
          (visualization_history s @ map entry_of_call (c # cs))"
proof (induction cs arbitrary: s c)
  case Nil
  show ?case by (cases c) (simp add: add_one_history entry_of_call_def)
next
  case (Cons d ds)
  obtain now ct su sn ok where c: "c = (now, ct, su, sn, ok)" by (cases c) auto
  let ?s1 = "add_visualization_to_history s now ct su sn ok"
  have "visualization_history (add_visualizations s (c # d # ds))
        = visualization_history (add_visualizations ?s1 (d # ds))"
    by (simp add: c)
  also have "\<dots> = drop (length (visualization_history ?s1) + length (d # ds) - 50)
                      (visualization_history ?s1 @ map entry_of_call (d # ds))"
    by (rule Cons.IH)
  also have "\<dots> = drop (length (visualization_history s) + length (c # d # ds) - 50)
                      (visualization_history s @ map entry_of_call (c # d # ds))"
    unfolding add_one_history
    using drop_window_step [of "visualization_history s" "new_history_entry now ct su sn ok"
                               "map entry_of_call (d # ds)"]
    by (simp add: c entry_of_call_def)
  finally show ?case .
qed

text \<open>
  C6: after any non-empty sequence of \<open>add_visualization_to_history\<close> calls, from any
  state, the history has at most 50 entries and is the tail of the old history followed
  by the appended entries; once 50 or more entries have been appended it is exactly the
  last 50 appended entries, in order.
\<close>

theorem history_bound:
  "length (visualization_history (add_visualizations s (c # cs))) \<le> 50
   \<and> visualization_history (add_visualizations s (c # cs)) =
       drop (length (visualization_history s) + length (c # cs) - 50)
            (visualization_history s @ map entry_of_call (c # cs))
   \<and> (50 \<le> length (c # cs) \<longrightarrow>
        visualization_history (add_visualizations s (c # cs)) =
          drop (length (c # cs) - 50) (map entry_of_call (c # cs)))"
proof -
  let ?h = "visualization_history s" and ?es = "map entry_of_call (c # cs)"
  have eq: "visualization_history (add_visualizations s (c # cs)) =
       drop (length ?h + length (c # cs) - 50) (?h @ ?es)"
    by (rule add_many_history)
  have len: "length (visualization_history (add_visualizations s (c # cs))) \<le> 50"
    unfolding eq by simp
  have last50: "drop (length ?h + length (c # cs) - 50) (?h @ ?es)
                = drop (length (c # cs) - 50) ?es" if "50 \<le> length (c # cs)"
    using that by simp
  show ?thesis using eq len last50 by simp
qed

theorem history_bound_witness:
  "50 \<le> length calls51
   \<and> visualization_history (add_visualizations (create_default ''u'') calls51) =
       drop (length calls51 - 50) (map entry_of_call calls51)"
proof -
  obtain c cs where cc: "calls51 = c # cs"
    by (cases calls51) (simp_all add: calls51_def upt_rec)
  have h: "50 \<le> length calls51" by (simp add: calls51_def)
  show ?thesis
    using h history_bound [of "create_default ''u''" c cs] unfolding cc [symmetric] by simp
qed

subsection \<open>Adding a memory note\<close>

lemma of_char_lower_char:
  "(of_char (lower_char c) :: nat) =
     (if (65 \<le> (of_char c :: nat) \<and> (of_char c :: nat) \<le> 90) \<or> (192 \<le> (of_char c :: nat) \<and> (of_char c :: nat) \<le> 214)
         \<or> (216 \<le> (of_char c :: nat) \<and> (of_char c :: nat) \<le> 222)
      then of_char c + 32 else of_char c)"
proof -
  define n where "n = (of_char c :: nat)"
  have "(n + 32) mod 256 = n + 32" if "n \<le> 222"
    using that by simp
  then show ?thesis
    unfolding lower_char_def Let_def n_def [symmetric]
    by (simp only: of_char_of split: if_splits) (simp add: n_def)
qed

lemma lower_char_fixed:
  "\<not> ((65 \<le> (of_char c :: nat) \<and> (of_char c :: nat) \<le> 90) \<or> (192 \<le> (of_char c :: nat) \<and> (of_char c :: nat) \<le> 214)
         \<or> (216 \<le> (of_char c :: nat) \<and> (of_char c :: nat) \<le> 222)) \<Longrightarrow> lower_char c = c"
  unfolding lower_char_def Let_def by (simp only: if_False)

lemma lower_char_idem: "lower_char (lower_char c) = lower_char c"
  by (rule lower_char_fixed) (simp only: of_char_lower_char, simp split: if_splits)

lemma isspace_lower_char: "isspace (lower_char c) = isspace c"
  unfolding isspace_def Let_def by (simp only: of_char_lower_char, simp split: if_splits)

lemma lower_idem: "lower (lower s) = lower s"
  by (simp add: lower_def lower_char_idem)

lemma strip_lower: "strip (lower s) = lower (strip s)"
  by (simp add: strip_def lower_def dropWhile_map rev_map comp_def isspace_lower_char)

lemma last_dropWhile_nonempty: "dropWhile P xs \<noteq> [] \<Longrightarrow> last (dropWhile P xs) = last xs"
  by (induction xs) (auto split: if_splits)

lemma strip_fixed: "s \<noteq> [] \<Longrightarrow> \<not> isspace (hd s) \<Longrightarrow> \<not> isspace (last s) \<Longrightarrow> strip s = s"
proof -
  assume s: "s \<noteq> []" and h: "\<not> isspace (hd s)" and l: "\<not> isspace (last s)"
  have 1: "dropWhile isspace s = s" using h by (simp add: dropWhile_eq_self_iff)
  have "hd (rev s) = last s" using s by (simp add: hd_rev)
  then have 2: "dropWhile isspace (rev s) = rev s" using l by (simp add: dropWhile_eq_self_iff)
  show ?thesis by (simp add: strip_def 1 2)
qed

lemma strip_ends:
  assumes "strip s \<noteq> []"
  shows "\<not> isspace (hd (strip s)) \<and> \<not> isspace (last (strip s))"
proof -
  define t where "t = dropWhile isspace s"
  define u where "u = dropWhile isspace (rev t)"
  have su: "strip s = rev u" by (simp add: strip_def t_def u_def)
  have u: "u \<noteq> []" using assms su by simp
  then have t: "t \<noteq> []" by (auto simp: u_def)
  have "\<not> isspace (hd u)" using u unfolding u_def by (rule hd_dropWhile)
  moreover have "last u = hd t"
    using last_dropWhile_nonempty [of isspace "rev t"] u t by (simp add: u_def last_rev)
  moreover have "\<not> isspace (hd t)" using t unfolding t_def by (rule hd_dropWhile)
  ultimately show ?thesis using u by (simp add: su hd_rev last_rev)
qed

lemma strip_idem: "strip (strip s) = strip s"
proof (cases "strip s = []")
  case True
  have "strip [] = []" by (simp add: strip_def)
  then show ?thesis by (simp only: True)
next
  case False
  then show ?thesis using strip_ends [of s] by (simp add: strip_fixed)
qed

lemma clean_keywords_eq:
  "concat (map clean_keyword ks) = map lower (filter (\<lambda>k. k \<noteq> []) (map strip (keyword_strings ks)))"
  by (induction ks) (auto simp: clean_keyword_def keyword_strings_def split: pyval.splits)

text \<open>
  C3, as stated, fails: \<open>add_memory_note\<close> does not remove duplicates. Two inputs
  that normalise to the same keyword both stay in the note.
\<close>

theorem add_memory_note_duplicate_counterexample:
  "note_keywords (fst (add_memory_note (create_default ''u'') ''2024-01-01'' ''likes bars''
      [PyStr ''bar'', PyStr '' Bar ''] True)) = [''bar'', ''bar'']
   \<and> \<not> distinct (note_keywords (fst (add_memory_note (create_default ''u'') ''2024-01-01''
      ''likes bars'' [PyStr ''bar'', PyStr '' Bar ''] True)))"
  by code_simp

text \<open>
  C3, amended: the keywords of the returned note are the string elements of the input,
  trimmed, with the blank ones dropped, lower-cased and capped at 5, in input order
  (duplicates are kept). So there are at most 5 of them, and each is non-empty, trimmed
  and lower-case.
\<close>

theorem add_memory_note_keywords:
  "note_keywords (fst (add_memory_note state today txt kws to_session)) =
     take 5 (map lower (filter (\<lambda>k. k \<noteq> []) (map strip (keyword_strings kws))))
   \<and> length (note_keywords (fst (add_memory_note state today txt kws to_session))) \<le> 5
   \<and> (\<forall>k \<in> set (note_keywords (fst (add_memory_note state today txt kws to_session))).
         k \<noteq> [] \<and> strip k = k \<and> lower k = k)"
proof -
  let ?n = "note_keywords (fst (add_memory_note state today txt kws to_session))"
  let ?xs = "map lower (filter (\<lambda>k. k \<noteq> []) (map strip (keyword_strings kws)))"
  have eq: "?n = take 5 ?xs"
    by (simp add: add_memory_note_def Let_def clean_keywords_def clean_keywords_eq)
  have len: "length ?n \<le> 5"
    by (simp only: eq length_take min.cobounded2)
  have each: "k \<noteq> [] \<and> strip k = k \<and> lower k = k" if "k \<in> set ?n" for k
  proof -
    from that have "k \<in> set ?xs"
      unfolding eq by (rule in_set_takeD)
    then obtain s where k: "k = lower (strip s)" and ne: "strip s \<noteq> []"
      by auto
    have 1: "k \<noteq> []" using ne by (simp add: k lower_def)
    have 2: "strip k = k" by (simp only: k strip_lower strip_idem)
    have 3: "lower k = k" by (simp only: k lower_idem)
    from 1 2 3 show ?thesis by blast
  qed
  from eq len each show ?thesis by blast
qed

theorem add_memory_note_keywords_witness:
  "note_keywords (fst (add_memory_note (create_default ''u'') ''2024-01-01'' ''likes bars''
        [PyStr '' Bar '', PyInt 3, PyStr ''  '', PyStr ''chart_type''] True)) = [''bar'', ''chart_type'']
   \<and> ''bar'' \<in> set (note_keywords (fst (add_memory_note (create_default ''u'') ''2024-01-01'' ''likes bars''
        [PyStr '' Bar '', PyInt 3, PyStr ''  '', PyStr ''chart_type''] True)))
   \<and> strip ''bar'' = ''bar'' \<and> lower ''bar'' = ''bar''"
proof -
  let ?n = "fst (add_memory_note (create_default ''u'') ''2024-01-01'' ''likes bars''
        [PyStr '' Bar '', PyInt 3, PyStr ''  '', PyStr ''chart_type''] True)"
  have e: "note_keywords ?n = [''bar'', ''chart_type'']"
    by code_simp
  have m: "''bar'' \<in> set (note_keywords ?n)"
    unfolding e by simp
  have "\<forall>k \<in> set (note_keywords ?n). k \<noteq> [] \<and> strip k = k \<and> lower k = k"
    using add_memory_note_keywords [of "create_default ''u''" "''2024-01-01''" "''likes bars''"
        "[PyStr '' Bar '', PyInt 3, PyStr ''  '', PyStr ''chart_type'']" True]
    by (rule conjunct2 [THEN conjunct2])
  then have "strip ''bar'' = ''bar'' \<and> lower ''bar'' = ''bar''"
    using m by blast
  then show ?thesis using e m by blast
qed

text \<open>
  C10: with \<open>to_session = True\<close> the call sets the session notes to the old session
  notes followed by the dictionary of the returned note and changes no other field of the
  state; with \<open>to_session = False\<close> it does the same to the global notes.
\<close>

theorem add_memory_note_frame:
  "session_memory (snd (add_memory_note state today txt kws True)) =
      Notes (notes_of (session_memory state) @ [to_dict (fst (add_memory_note state today txt kws True))])
   \<and> snd (add_memory_note state today txt kws True) =
      state\<lparr>session_memory := session_memory (snd (add_memory_note state today txt kws True))\<rparr>
   \<and> global_memory (snd (add_memory_note state today txt kws False)) =
      Notes (notes_of (global_memory state) @ [to_dict (fst (add_memory_note state today txt kws False))])
   \<and> snd (add_memory_note state today txt kws False) =
      state\<lparr>global_memory := global_memory (snd (add_memory_note state today txt kws False))\<rparr>"
  by (simp add: add_memory_note_def Let_def append_note_def notes_of_def split: memory.splits)

section \<open>Properties of context\_trimmer.py\<close>

lemma length_indices_from:
  "length (filter (\<lambda>(i, m). P m) (enumerate n h)) = length (filter P h)"
  by (induction h arbitrary: n) simp_all

lemma length_user_indices_of:
  "length (user_indices_of h) = length (filter is_user h)"
  by (simp add: user_indices_of_def length_indices_from)

lemma indices_from_drop:
  "k < length (filter (\<lambda>(i, m). P m) (enumerate n h)) \<Longrightarrow>
     n \<le> map fst (filter (\<lambda>(i, m). P m) (enumerate n h)) ! k
     \<and> length (filter P (drop (map fst (filter (\<lambda>(i, m). P m) (enumerate n h)) ! k - n) h))
         = length (filter P h) - k"
proof (induction h arbitrary: n k)
  case Nil
  then show ?case by simp
next
  case (Cons x xs)
  let ?us' = "map fst (filter (\<lambda>(i, m). P m) (enumerate (Suc n) xs))"
  show ?case
  proof (cases "P x \<and> k = 0")
    case True
    then show ?thesis by simp
  next
    case False
    define k' where "k' = (if P x then k - 1 else k)"
    have k': "k' < length (filter (\<lambda>(i, m). P m) (enumerate (Suc n) xs))"
      using Cons.prems False by (auto simp: k'_def)
    have nth: "map fst (filter (\<lambda>(i, m). P m) (enumerate n (x # xs))) ! k = ?us' ! k'"
      using False by (cases k) (auto simp: k'_def)
    from Cons.IH [OF k'] have ih: "Suc n \<le> ?us' ! k'"
      "length (filter P (drop (?us' ! k' - Suc n) xs)) = length (filter P xs) - k'"
      by simp_all
    have d: "?us' ! k' - n = Suc (?us' ! k' - Suc n)" using ih(1) by simp
    have "length (filter P xs) - k' = length (filter P (x # xs)) - k"
      using False k' by (auto simp: k'_def length_indices_from)
    then show ?thesis
      unfolding nth d using ih by simp
  qed
qed

lemma user_indices_drop:
  assumes "k < length (user_indices_of h)"
  shows "length (filter is_user (drop (user_indices_of h ! k) h)) = length (filter is_user h) - k"
  using indices_from_drop [of k is_user 0 h] assms by (simp add: user_indices_of_def)

lemma not_should_trim_noop:
  "\<not> should_trim_conversation h mt \<Longrightarrow> trim_conversation h s today mt pc = Inr (h, 0, s)"
  by (simp add: trim_conversation_def)

text \<open>
  C4: the claim asks that at least \<open>MIN_TURNS_TO_KEEP = 3\<close> turns survive a trim
  whatever \<open>max_turns\<close> is. The constant is never read by \<open>trim_conversation\<close>:
  on five user messages with \<open>max_turns = 1\<close> a single message is kept and four are
  removed.
\<close>

theorem trim_conversation_floor_failing_input:
  "kept_and_removed
     (trim_conversation
        [user_msg ''m1'', user_msg ''m2'', user_msg ''m3'', user_msg ''m4'', user_msg ''m5'']
        (create_default ''u'') ''2024-01-01'' 1 True) = Inr ([user_msg ''m5''], 4)
   \<and> int (length [user_msg ''m5'']) < MIN_TURNS_TO_KEEP"
  by code_simp

text \<open>
  A negative \<open>max_turns\<close> is not a number of turns to keep. The code does not reject
  it: with \<open>max_turns = -1\<close> the subscript \<open>user_indices[1]\<close> becomes the cutoff,
  and a second call on the result of the first removes one more message.
\<close>

lemma trim_conversation_negative_max_turns:
  "trim_twice [user_msg ''a'', user_msg ''b'', user_msg ''c''] (create_default ''u'')
     ''2024-01-01'' (- 1) True
   = Inr (([user_msg ''b'', user_msg ''c''], 1), ([user_msg ''c''], 1))"
  by code_simp

lemma user_index_is_user:
  assumes "k < length (user_indices_of h)"
  shows "user_indices_of h ! k < length h \<and> is_user (h ! (user_indices_of h ! k))"
proof -
  have "user_indices_of h ! k \<in> set (user_indices_of h)"
    using assms by (rule nth_mem)
  then obtain m where "(user_indices_of h ! k, m) \<in> set (enumerate 0 h)" "is_user m"
    by (auto simp: user_indices_of_def)
  then show ?thesis by (simp add: in_set_enumerate_eq)
qed

lemma trim_zero_head_user:
  assumes "is_user x"
  shows "trim_conversation (x # xs) s today 0 pc = Inr (x # xs, 0, s)"
  using assms
  by (simp add: trim_conversation_def should_trim_conversation_def user_indices_of_def
        py_index_def Let_def)

lemma trim_idempotent_positive:
  assumes "1 \<le> max_turns"
  shows "\<exists>kept removed state'.
           trim_conversation h state today max_turns pc = Inr (kept, removed, state')
           \<and> \<not> should_trim_conversation kept max_turns
           \<and> trim_conversation kept state' today' max_turns pc' = Inr (kept, 0, state')"
proof (cases "should_trim_conversation h max_turns")
  case False
  then show ?thesis by (simp add: not_should_trim_noop)
next
  case True
  let ?us = "user_indices_of h"
  define n where "n = length ?us"
  have n: "int n > max_turns"
    using True by (simp add: should_trim_conversation_def n_def length_user_indices_of)
  define k where "k = nat (int n - max_turns)"
  have k: "k < n" "int n - int k = max_turns" using n assms by (simp_all add: k_def)
  have idx: "py_index ?us (- max_turns) = Inr (?us ! k)"
    using n assms by (simp add: py_index_def n_def [symmetric] k_def)
  obtain state' where first:
    "trim_conversation h state today max_turns pc = Inr (drop (?us ! k) h, length (take (?us ! k) h), state')"
    using True n by (simp add: trim_conversation_def Let_def idx n_def [symmetric] del: length_take)
  have "length (filter is_user (drop (?us ! k) h)) = n - k"
    using user_indices_drop [of k h] k(1) by (simp add: n_def length_user_indices_of)
  then have "int (length (filter is_user (drop (?us ! k) h))) = max_turns"
    using k by simp
  then have no: "\<not> should_trim_conversation (drop (?us ! k) h) max_turns"
    by (simp add: should_trim_conversation_def)
  then have "trim_conversation (drop (?us ! k) h) state' today' max_turns pc' = Inr (drop (?us ! k) h, 0, state')"
    by (rule not_should_trim_noop)
  with first no show ?thesis by blast
qed

lemma trim_idempotent_zero:
  "\<exists>kept removed state'.
     trim_conversation h state today 0 pc = Inr (kept, removed, state')
     \<and> trim_conversation kept state' today' 0 pc' = Inr (kept, 0, state')"
proof (cases "should_trim_conversation h 0")
  case False
  then show ?thesis by (simp add: not_should_trim_noop)
next
  case True
  let ?us = "user_indices_of h"
  let ?c = "?us ! 0"
  have n: "0 < length ?us"
    using True by (simp add: should_trim_conversation_def length_user_indices_of)
  have idx: "py_index ?us (- 0) = Inr ?c"
    using n by (simp add: py_index_def)
  obtain state' where first:
    "trim_conversation h state today 0 pc = Inr (drop ?c h, length (take ?c h), state')"
    using True n idx by (simp add: trim_conversation_def Let_def del: length_take)
  have c: "?c < length h" "is_user (h ! ?c)"
    using user_index_is_user [OF n] by simp_all
  have kept: "drop ?c h = h ! ?c # drop (Suc ?c) h"
    using c(1) by (simp add: Cons_nth_drop_Suc)
  have "trim_conversation (drop ?c h) state' today' 0 pc' = Inr (drop ?c h, 0, state')"
    unfolding kept using c(2) by (rule trim_zero_head_user)
  with first show ?thesis by blast
qed

text \<open>
  C7: for every transcript, every state and every \<open>max_turns\<close> that is a number of
  turns (0 or more), a second \<open>trim_conversation\<close> on the transcript the first call
  returned (with the state the first call left, any date and any \<open>preserve_context\<close>)
  returns that transcript unchanged, with 0 removed and the state unchanged. For
  \<open>max_turns\<close> of at least 1 this is because \<open>should_trim_conversation\<close> is false on
  the once-trimmed transcript; for \<open>max_turns = 0\<close> the second call finds its cutoff at
  index 0 and removes nothing.
\<close>

theorem trim_conversation_idempotent:
  assumes "0 \<le> max_turns"
  shows "\<exists>kept removed state'.
           trim_conversation h state today max_turns pc = Inr (kept, removed, state')
           \<and> trim_conversation kept state' today' max_turns pc' = Inr (kept, 0, state')
           \<and> (1 \<le> max_turns \<longrightarrow> \<not> should_trim_conversation kept max_turns)"
proof (cases "1 \<le> max_turns")
  case True
  from trim_idempotent_positive [OF True, of h state today pc today' pc']
  show ?thesis by blast
next
  case False
  then have z: "max_turns = 0" using assms by simp
  from trim_idempotent_zero [of h state today pc today' pc']
  show ?thesis unfolding z by simp
qed

theorem trim_conversation_idempotent_witness:
  "(0::int) \<le> 1 \<and> (1::int) \<le> 1
   \<and> (\<exists>kept removed state'.
         trim_conversation [user_msg ''a'', assistant_msg ''x'', user_msg ''b'', user_msg ''c'']
           (create_default ''u'') ''2024-01-01'' 1 True = Inr (kept, removed, state')
         \<and> trim_conversation kept state' ''2024-01-02'' 1 True = Inr (kept, 0, state')
         \<and> \<not> should_trim_conversation kept 1)
   \<and> trim_twice [user_msg ''a'', assistant_msg ''x'', user_msg ''b'', user_msg ''c'']
         (create_default ''u'') ''2024-01-01'' 1 True
       = Inr (([user_msg ''c''], 3), ([user_msg ''c''], 0))
   \<and> trim_twice [assistant_msg ''x'', user_msg ''b'', user_msg ''c'']
         (create_default ''u'') ''2024-01-01'' 0 True
       = Inr (([user_msg ''b'', user_msg ''c''], 1), ([user_msg ''b'', user_msg ''c''], 0))"
proof -
  have a: "(0::int) \<le> 1" and b: "(1::int) \<le> 1" by simp_all
  note t = trim_conversation_idempotent [OF a,
      of "[user_msg ''a'', assistant_msg ''x'', user_msg ''b'', user_msg ''c'']"
         "create_default ''u''" "''2024-01-01''" True "''2024-01-02''" True]
  have e: "trim_twice [user_msg ''a'', assistant_msg ''x'', user_msg ''b'', user_msg ''c'']
         (create_default ''u'') ''2024-01-01'' 1 True
       = Inr (([user_msg ''c''], 3), ([user_msg ''c''], 0))"
    by code_simp
  have z: "trim_twice [assistant_msg ''x'', user_msg ''b'', user_msg ''c'']
         (create_default ''u'') ''2024-01-01'' 0 True
       = Inr (([user_msg ''b'', user_msg ''c''], 1), ([user_msg ''b'', user_msg ''c''], 0))"
    by code_simp
  from a b t e z show ?thesis by blast
qed

section \<open>Properties of memory\_consolidation.py\<close>

subsection \<open>Rounding to a double\<close>

lemma powi_nat_bitlen: "0 \<le> k \<Longrightarrow> (2::rat) powi k = of_int (2 ^ nat k)"
  by (simp add: power_int_def)

lemma binary_exponent_bounds:
  assumes "0 < x"
  shows "2 powi (binary_exponent x) \<le> x \<and> x < 2 powi (binary_exponent x + 1)"
proof -
  obtain p q where pq: "quotient_of x = (p, q)" by (cases "quotient_of x")
  have q: "0 < q" using pq by (rule quotient_of_denom_pos)
  have x: "x = of_int p / of_int q" using pq by (rule quotient_of_div)
  have p: "0 < p" using assms q by (simp add: x zero_less_divide_iff)
  define bp bq where "bp = bitlen p" and "bq = bitlen q"
  have bp1: "1 \<le> bp" and bq1: "1 \<le> bq"
    using p q bitlen_eq_zero_iff [of p] bitlen_eq_zero_iff [of q] bitlen_nonneg [of p] bitlen_nonneg [of q]
    by (auto simp: bp_def bq_def)
  have "2 ^ nat (bp - 1) \<le> p" "p < 2 ^ nat bp"
    using bitlen_bounds [OF p] by (simp_all add: bp_def)
  then have "(of_int (2 ^ nat (bp - 1)) :: rat) \<le> of_int p" "(of_int p :: rat) < of_int (2 ^ nat bp)"
    by (simp_all only: of_int_le_iff of_int_less_iff)
  then have pb: "(2::rat) powi (bp - 1) \<le> of_int p" "(of_int p :: rat) < 2 powi bp"
    using bp1 by (simp_all add: powi_nat_bitlen)
  have "2 ^ nat (bq - 1) \<le> q" "q < 2 ^ nat bq"
    using bitlen_bounds [OF q] by (simp_all add: bq_def)
  then have "(of_int (2 ^ nat (bq - 1)) :: rat) \<le> of_int q" "(of_int q :: rat) < of_int (2 ^ nat bq)"
    by (simp_all only: of_int_le_iff of_int_less_iff)
  then have qb: "(2::rat) powi (bq - 1) \<le> of_int q" "(of_int q :: rat) < 2 powi bq"
    using bq1 by (simp_all add: powi_nat_bitlen)
  have qpos: "(0::rat) < of_int q" using q by simp
  have ppos: "(0::rat) < of_int p" using p by simp
  define a b a' b' where "a = (2::rat) powi (bq - 1)" and "b = (2::rat) powi bp"
    and "a' = (2::rat) powi bq" and "b' = (2::rat) powi (bp - 1)"
  have pos: "0 < a" "0 < b" "0 < a'" "0 < b'"
    by (simp_all add: a_def b_def a'_def b'_def)
  have up: "x < 2 powi (bp - bq + 1)"
  proof -
    have "of_int p * a < b * of_int q"
      using pb(2) qb(1) ppos pos unfolding a_def [symmetric] b_def [symmetric]
      by (intro mult_less_le_imp_less) simp_all
    then have "of_int p / of_int q < b / a"
      using pos qpos by (simp add: field_simps)
    moreover have "(2::rat) powi (bp - bq + 1) = b / a"
      unfolding a_def b_def by (simp add: power_int_diff [symmetric] algebra_simps)
    ultimately show ?thesis by (simp add: x)
  qed
  have lo: "2 powi (bp - bq - 1) < x"
  proof -
    have "b' * of_int q < of_int p * a'"
      using pb(1) qb(2) qpos pos unfolding a'_def [symmetric] b'_def [symmetric]
      by (intro mult_le_less_imp_less) simp_all
    then have "b' / a' < of_int p / of_int q"
      using pos qpos by (simp add: field_simps)
    moreover have "(2::rat) powi (bp - bq - 1) = b' / a'"
      unfolding a'_def b'_def by (simp add: power_int_diff [symmetric] algebra_simps)
    ultimately show ?thesis by (simp add: x)
  qed
  have e: "binary_exponent x = (if 2 powi (bp - bq) \<le> x then bp - bq else bp - bq - 1)"
    by (simp add: binary_exponent_def pq Let_def bp_def bq_def)
  show ?thesis
  proof (cases "2 powi (bp - bq) \<le> x")
    case True
    then show ?thesis using up by (simp add: e)
  next
    case False
    then show ?thesis using lo by (simp add: e)
  qed
qed

lemma round_half_even_bounds:
  "of_int (round_half_even r) \<le> r + 1 / 2 \<and> r - 1 / 2 \<le> of_int (round_half_even r)"
proof -
  define n where "n = \<lfloor>r\<rfloor>"
  have n: "of_int n \<le> r" "r < of_int n + 1"
    unfolding n_def by linarith+
  have "round_half_even r = n \<and> r - of_int n \<le> 1 / 2
        \<or> round_half_even r = n + 1 \<and> 1 / 2 \<le> r - of_int n"
    by (auto simp: round_half_even_def Let_def n_def [symmetric])
  then show ?thesis
  proof
    assume "round_half_even r = n \<and> r - of_int n \<le> 1 / 2"
    then show ?thesis using n by simp
  next
    assume "round_half_even r = n + 1 \<and> 1 / 2 \<le> r - of_int n"
    then show ?thesis using n by simp
  qed
qed

lemma round_half_even_le:
  assumes "r \<le> of_int N"
  shows "round_half_even r \<le> N"
proof -
  have "(of_int (round_half_even r) :: rat) \<le> of_int N + 1 / 2"
    using round_half_even_bounds [of r] assms by linarith
  then have "(of_int (round_half_even r) :: rat) < of_int (N + 1)" by simp
  then have "round_half_even r < N + 1" by (simp only: of_int_less_iff)
  then show ?thesis by simp
qed

lemma round_half_even_nonneg:
  assumes "0 \<le> r"
  shows "0 \<le> round_half_even r"
proof -
  have "(- 1 :: rat) < of_int (round_half_even r)"
    using round_half_even_bounds [of r] assms by linarith
  then have "(of_int (- 1) :: rat) < of_int (round_half_even r)" by simp
  then have "- 1 < round_half_even r" by (simp only: of_int_less_iff)
  then show ?thesis by simp
qed

lemma round_double_nonneg:
  assumes "0 \<le> x"
  shows "0 \<le> round_double x"
proof (cases "x = 0")
  case True
  then show ?thesis by (simp add: round_double_def)
next
  case False
  define ulp where "ulp = (2::rat) powi (binary_exponent x - 52)"
  have ulp: "0 < ulp" by (simp add: ulp_def)
  have "0 \<le> x / ulp" using assms ulp by simp
  then have "0 \<le> round_half_even (x / ulp)" by (rule round_half_even_nonneg)
  then have "0 \<le> of_int (round_half_even (x / ulp)) * ulp" using ulp by simp
  then show ?thesis using False assms by (simp add: round_double_def Let_def ulp_def)
qed

lemma round_double_le:
  assumes x: "0 \<le> x" and le: "x \<le> of_int m * 2 powi k"
    and norm: "of_int m * 2 powi k < (2::rat) powi (k + 53)"
  shows "round_double x \<le> of_int m * 2 powi k"
proof (cases "x = 0")
  case True
  then show ?thesis using x le by (simp add: round_double_def)
next
  case False
  then have xpos: "0 < x" using x by simp
  define e where "e = binary_exponent x"
  define ulp where "ulp = (2::rat) powi (e - 52)"
  have ulp: "0 < ulp" by (simp add: ulp_def)
  have "2 powi e \<le> x" using binary_exponent_bounds [OF xpos] by (simp add: e_def)
  then have "(2::rat) powi e < 2 powi (k + 53)" using le norm by linarith
  then have "\<not> (k + 53 \<le> e)"
    using power_int_increasing [of "k + 53" e "2::rat"] by auto
  then have "e < k + 53" by simp
  then have ek: "0 \<le> k - (e - 52)" by simp
  have "(2::rat) powi (k - (e - 52) + (e - 52)) = 2 powi (k - (e - 52)) * 2 powi (e - 52)"
    by (rule power_int_add) simp
  then have "(2::rat) powi k = 2 powi (k - (e - 52)) * ulp"
    unfolding ulp_def by simp
  also have "(2::rat) powi (k - (e - 52)) = of_int (2 ^ nat (k - (e - 52)))"
    using ek by (rule powi_nat_bitlen)
  finally have c: "of_int m * 2 powi k = of_int (m * 2 ^ nat (k - (e - 52))) * ulp"
    by simp
  have "x / ulp \<le> of_int (m * 2 ^ nat (k - (e - 52)))"
    using le ulp unfolding c by (simp add: field_simps)
  then have "round_half_even (x / ulp) \<le> m * 2 ^ nat (k - (e - 52))"
    by (rule round_half_even_le)
  then have "(of_int (round_half_even (x / ulp)) :: rat) \<le> of_int (m * 2 ^ nat (k - (e - 52)))"
    by (simp only: of_int_le_iff)
  then have "of_int (round_half_even (x / ulp)) * ulp \<le> of_int (m * 2 ^ nat (k - (e - 52))) * ulp"
    using ulp by (simp only: mult_le_cancel_right_pos)
  then show ?thesis
    unfolding c using xpos by (simp add: round_double_def Let_def ulp_def e_def)
qed

lemma round_double_error:
  assumes "0 \<le> x"
  shows "\<bar>round_double x - x\<bar> \<le> x / 2 ^ 53"
proof (cases "x = 0")
  case True
  then show ?thesis by (simp add: round_double_def)
next
  case False
  then have xpos: "0 < x" using assms by simp
  define e where "e = binary_exponent x"
  define ulp where "ulp = (2::rat) powi (e - 52)"
  define n where "n = round_half_even (x / ulp)"
  have ulp: "0 < ulp" by (simp add: ulp_def)
  have lo: "2 powi e \<le> x" using binary_exponent_bounds [OF xpos] by (simp add: e_def)
  have rd: "round_double x = of_int n * ulp"
    using xpos by (simp add: round_double_def Let_def ulp_def e_def n_def)
  have "\<bar>of_int n - x / ulp\<bar> \<le> 1 / 2"
    using round_half_even_bounds [of "x / ulp"] unfolding n_def by linarith
  then have "\<bar>of_int n - x / ulp\<bar> * ulp \<le> 1 / 2 * ulp"
    using ulp by (simp only: mult_le_cancel_right_pos)
  moreover have "\<bar>of_int n - x / ulp\<bar> * ulp = \<bar>of_int n * ulp - x\<bar>"
  proof -
    have "\<bar>of_int n - x / ulp\<bar> * ulp = \<bar>(of_int n - x / ulp) * ulp\<bar>"
      using ulp by (simp add: abs_mult)
    also have "(of_int n - x / ulp) * ulp = of_int n * ulp - x"
      using ulp by (simp add: field_simps)
    finally show ?thesis .
  qed
  moreover have "1 / 2 * ulp = 2 powi e / 2 ^ 53"
  proof -
    have "(2::rat) powi (e - 52 + 52) = 2 powi (e - 52) * 2 powi 52"
      by (rule power_int_add) simp
    then show ?thesis unfolding ulp_def by simp
  qed
  moreover have "(2::rat) powi e / 2 ^ 53 \<le> x / 2 ^ 53"
    using lo by (simp add: divide_right_mono)
  ultimately show ?thesis unfolding rd by linarith
qed

subsection \<open>Similarity\<close>

lemma jaccard_commute: "jaccard A B = jaccard B A"
  by (simp add: jaccard_def Int_commute Un_commute)

lemma jaccard_bounds:
  assumes "finite A" "finite B"
  shows "0 \<le> jaccard A B \<and> jaccard A B \<le> 1"
proof -
  have "card (A \<inter> B) \<le> card (A \<union> B)"
    using assms by (intro card_mono) auto
  then have "(of_nat (card (A \<inter> B)) :: rat) \<le> of_nat (card (A \<union> B))"
    by simp
  then show ?thesis
    by (simp add: jaccard_def divide_le_eq_1)
qed

lemma float_literal_06: "float_literal (6 / 10) = 5404319552844595 / 9007199254740992"
  by code_simp

lemma float_literal_04: "float_literal (4 / 10) = 3602879701896397 / 9007199254740992"
  by code_simp

lemma round_double_0: "round_double 0 = 0"
  by (simp add: round_double_def)

lemma round_double_le_1:
  assumes "0 \<le> x" "x \<le> 1"
  shows "round_double x \<le> 1"
  using round_double_le [of x 1 0] assms by simp

text \<open>The float expression \<open>0.6 * k + 0.4 * t\<close> for exact ratios \<open>k\<close> and \<open>t\<close> in [0, 1].\<close>

lemma weighted_sum_bounds:
  assumes k: "0 \<le> k" "k \<le> 1" and t: "0 \<le> t" "t \<le> 1"
  defines "r \<equiv> float_add (float_mult (float_literal (6 / 10)) (round_double k))
                          (float_mult (float_literal (4 / 10)) (round_double t))"
  shows "0 \<le> r" "r \<le> 1" "\<bar>r - (6 / 10 * k + 4 / 10 * t)\<bar> \<le> 1 / 2 ^ 50"
proof -
  define c6 c4 :: rat where "c6 = 5404319552844595 / 9007199254740992"
    and "c4 = 3602879701896397 / 9007199254740992"
  define k' t' where "k' = round_double k" and "t' = round_double t"
  define a b where "a = round_double (c6 * k')" and "b = round_double (c4 * t')"
  have r: "r = round_double (a + b)"
    unfolding r_def float_add_def float_mult_def float_literal_06 float_literal_04
      a_def b_def k'_def t'_def c6_def c4_def ..
  have k': "0 \<le> k'" "k' \<le> 1" "\<bar>k' - k\<bar> \<le> k / 2 ^ 53"
    using k round_double_nonneg [of k] round_double_le_1 [of k] round_double_error [of k]
    by (simp_all add: k'_def)
  have t': "0 \<le> t'" "t' \<le> 1" "\<bar>t' - t\<bar> \<le> t / 2 ^ 53"
    using t round_double_nonneg [of t] round_double_le_1 [of t] round_double_error [of t]
    by (simp_all add: t'_def)
  have p: "0 \<le> c6 * k'" "c6 * k' \<le> c6" "0 \<le> c4 * t'" "c4 * t' \<le> c4"
    using k' t' by (simp_all add: c6_def c4_def)
  have c6m: "c6 = of_int 5404319552844595 * 2 powi (- 53)"
    and c4m: "c4 = of_int 3602879701896397 * 2 powi (- 53)"
    by (simp_all add: c6_def c4_def power_int_minus_divide)
  have a: "0 \<le> a" "a \<le> c6" "\<bar>a - c6 * k'\<bar> \<le> c6 * k' / 2 ^ 53"
  proof -
    show "0 \<le> a" unfolding a_def using p(1) by (rule round_double_nonneg)
    have "round_double (c6 * k') \<le> of_int 5404319552844595 * 2 powi (- 53)"
    proof (rule round_double_le)
      show "0 \<le> c6 * k'" by (rule p(1))
      show "c6 * k' \<le> of_int 5404319552844595 * 2 powi (- 53)" using p(2) by (simp only: c6m)
      show "of_int 5404319552844595 * 2 powi (- 53) < (2::rat) powi (- 53 + 53)"
        by (simp add: power_int_minus_divide)
    qed
    then show "a \<le> c6" by (simp only: a_def c6m [symmetric])
    show "\<bar>a - c6 * k'\<bar> \<le> c6 * k' / 2 ^ 53"
      unfolding a_def using p(1) by (rule round_double_error)
  qed
  have b: "0 \<le> b" "b \<le> c4" "\<bar>b - c4 * t'\<bar> \<le> c4 * t' / 2 ^ 53"
  proof -
    show "0 \<le> b" unfolding b_def using p(3) by (rule round_double_nonneg)
    have "round_double (c4 * t') \<le> of_int 3602879701896397 * 2 powi (- 53)"
    proof (rule round_double_le)
      show "0 \<le> c4 * t'" by (rule p(3))
      show "c4 * t' \<le> of_int 3602879701896397 * 2 powi (- 53)" using p(4) by (simp only: c4m)
      show "of_int 3602879701896397 * 2 powi (- 53) < (2::rat) powi (- 53 + 53)"
        by (simp add: power_int_minus_divide)
    qed
    then show "b \<le> c4" by (simp only: b_def c4m [symmetric])
    show "\<bar>b - c4 * t'\<bar> \<le> c4 * t' / 2 ^ 53"
      unfolding b_def using p(3) by (rule round_double_error)
  qed
  have s: "0 \<le> a + b" "a + b \<le> 1"
    using a b by (simp_all add: c6_def c4_def)
  show "0 \<le> r" unfolding r using s(1) by (rule round_double_nonneg)
  show "r \<le> 1" unfolding r using s by (rule round_double_le_1)
  have e: "\<bar>r - (a + b)\<bar> \<le> (a + b) / 2 ^ 53"
    unfolding r using s(1) by (rule round_double_error)
  define u :: rat where "u = 1 / 2 ^ 53"
  have u: "0 \<le> u" by (simp add: u_def)
  have sc: "x * u \<le> u" if "0 \<le> x" "x \<le> 1" for x
    using that u by (simp add: mult_left_le_one_le)
  have c6: "6 / 10 - u \<le> c6" "c6 \<le> 6 / 10" and c4: "4 / 10 \<le> c4" "c4 \<le> 4 / 10 + u"
    by (simp_all add: c6_def c4_def u_def)
  have c61: "0 \<le> c6" "c6 \<le> 1" and c41: "0 \<le> c4" "c4 \<le> 1"
    by (simp_all add: c6_def c4_def)
  have "\<bar>k' - k\<bar> \<le> k * u" using k'(3) by (simp add: u_def)
  then have k1: "k - u \<le> k'" "k' \<le> k + u"
    using sc [OF k] by (simp_all only: abs_le_iff) linarith+
  have "\<bar>t' - t\<bar> \<le> t * u" using t'(3) by (simp add: u_def)
  then have t1: "t - u \<le> t'" "t' \<le> t + u"
    using sc [OF t] by (simp_all only: abs_le_iff) linarith+
  have pk: "c6 * k' \<le> 1" "c4 * t' \<le> 1" using p c61 c41 by linarith+
  have "\<bar>a - c6 * k'\<bar> \<le> c6 * k' * u" using a(3) by (simp add: u_def)
  then have a1: "c6 * k' - u \<le> a" "a \<le> c6 * k' + u"
    using sc [OF p(1) pk(1)] by (simp_all only: abs_le_iff) linarith+
  have "\<bar>b - c4 * t'\<bar> \<le> c4 * t' * u" using b(3) by (simp add: u_def)
  then have b1: "c4 * t' - u \<le> b" "b \<le> c4 * t' + u"
    using sc [OF p(3) pk(2)] by (simp_all only: abs_le_iff) linarith+
  have "\<bar>r - (a + b)\<bar> \<le> (a + b) * u" using e by (simp add: u_def)
  then have r1: "a + b - u \<le> r" "r \<le> a + b + u"
    using sc [OF s] by (simp_all only: abs_le_iff) linarith+
  have m6: "(6 / 10 - u) * k' \<le> c6 * k'" "c6 * k' \<le> 6 / 10 * k'"
    using c6 k'(1) by (simp_all only: mult_right_mono)
  have m4: "4 / 10 * t' \<le> c4 * t'" "c4 * t' \<le> (4 / 10 + u) * t'"
    using c4 t'(1) by (simp_all only: mult_right_mono)
  have uk: "u * k' \<le> u" "u * t' \<le> u"
    using sc [OF k'(1,2)] sc [OF t'(1,2)] by (simp_all add: mult.commute)
  have a2: "6 / 10 * k - 3 * u \<le> a" "a \<le> 6 / 10 * k + 2 * u"
    using a1 m6 uk(1) k1 by (simp_all add: algebra_simps)
  have b2: "4 / 10 * t - 2 * u \<le> b" "b \<le> 4 / 10 * t + 3 * u"
    using b1 m4 uk(2) t1 by (simp_all add: algebra_simps)
  have "6 / 10 * k + 4 / 10 * t - 6 * u \<le> r" "r \<le> 6 / 10 * k + 4 / 10 * t + 6 * u"
    using r1 a2 b2 by linarith+
  moreover have "6 * u \<le> 1 / 2 ^ 50" by (simp add: u_def)
  ultimately show "\<bar>r - (6 / 10 * k + 4 / 10 * t)\<bar> \<le> 1 / 2 ^ 50"
    by (simp only: abs_le_iff) linarith
qed

lemma calculate_similarity_eq:
  "calculate_similarity a b =
     (if note_keywords a = [] \<or> note_keywords b = [] then 0
      else float_add (float_mult (float_literal (6 / 10))
                        (round_double (jaccard (keyword_set a) (keyword_set b))))
                     (float_mult (float_literal (4 / 10))
                        (round_double (jaccard (word_set a) (word_set b)))))"
  unfolding calculate_similarity_def Let_def jaccard_def int_true_div_def keyword_set_def word_set_def
  by (simp only: set_empty round_double_0 if_distrib [of round_double] cong: if_cong)

text \<open>
  The score is the rounded one. For keyword lists that share one keyword of three and
  texts without a common word, it is the double below \<open>1/5\<close> that Python prints as
  \<open>0.19999999999999998\<close>.
\<close>

lemma calculate_similarity_rounded_example:
  "calculate_similarity (mk_note ''alpha'' ''2024-01-01'' [''k1'', ''k2''])
                        (mk_note ''beta'' ''2024-01-01'' [''k1'', ''k3''])
     = 7205759403792793 / 36028797018963968
   \<and> (7205759403792793 / 36028797018963968 :: rat) < 1 / 5"
  by code_simp

text \<open>
  C2, as stated, fails: when a note has no keywords \<open>calculate_similarity\<close> returns 0
  at once, so the text component does not contribute. Two notes with the same text, one
  of them without keywords, have similarity 0 where the stated formula gives 0.4, in
  exact and in float arithmetic alike.
\<close>

theorem calculate_similarity_counterexample:
  "calculate_similarity (mk_note ''bar charts'' ''2024-01-01'' [])
                        (mk_note ''bar charts'' ''2024-01-01'' [''bar'']) = 0
   \<and> (6 / 10) * jaccard (keyword_set (mk_note ''bar charts'' ''2024-01-01'' []))
                        (keyword_set (mk_note ''bar charts'' ''2024-01-01'' [''bar'']))
      + (4 / 10) * jaccard (word_set (mk_note ''bar charts'' ''2024-01-01'' []))
                           (word_set (mk_note ''bar charts'' ''2024-01-01'' [''bar''])) = 4 / 10
   \<and> float_add
         (float_mult (float_literal (6 / 10))
            (round_double (jaccard (keyword_set (mk_note ''bar charts'' ''2024-01-01'' []))
                                   (keyword_set (mk_note ''bar charts'' ''2024-01-01'' [''bar''])))))
         (float_mult (float_literal (4 / 10))
            (round_double (jaccard (word_set (mk_note ''bar charts'' ''2024-01-01'' []))
                                   (word_set (mk_note ''bar charts'' ''2024-01-01'' [''bar''])))))
       = float_literal (4 / 10)"
  by code_simp

text \<open>
  C2, amended: \<open>calculate_similarity\<close> is 0 when either note has no keywords.
  Otherwise it is the float evaluation of 0.6 times the Jaccard overlap of the keyword
  sets plus 0.4 times the Jaccard overlap of the lower-cased word sets, every quotient,
  product and sum rounded to the nearest double; that value is within \<open>2^-50\<close> of the
  exact weighted sum. The result lies between 0 and 1 and is symmetric. It is a function
  of the two notes alone.
\<close>

theorem calculate_similarity_spec:
  "calculate_similarity a b =
     (if note_keywords a = [] \<or> note_keywords b = [] then 0
      else float_add (float_mult (float_literal (6 / 10))
                        (round_double (jaccard (keyword_set a) (keyword_set b))))
                     (float_mult (float_literal (4 / 10))
                        (round_double (jaccard (word_set a) (word_set b)))))
   \<and> \<bar>calculate_similarity a b -
        (if note_keywords a = [] \<or> note_keywords b = [] then 0
         else 6 / 10 * jaccard (keyword_set a) (keyword_set b)
              + 4 / 10 * jaccard (word_set a) (word_set b))\<bar> \<le> 1 / 2 ^ 50
   \<and> 0 \<le> calculate_similarity a b \<and> calculate_similarity a b \<le> 1
   \<and> calculate_similarity a b = calculate_similarity b a"
proof -
  let ?k = "jaccard (keyword_set a) (keyword_set b)" and ?t = "jaccard (word_set a) (word_set b)"
  have k: "0 \<le> ?k" "?k \<le> 1"
    using jaccard_bounds [of "keyword_set a" "keyword_set b"] by (simp_all add: keyword_set_def)
  have t: "0 \<le> ?t" "?t \<le> 1"
    using jaccard_bounds [of "word_set a" "word_set b"] by (simp_all add: word_set_def)
  note w = weighted_sum_bounds [OF k t]
  have sym: "calculate_similarity a b = calculate_similarity b a"
    unfolding calculate_similarity_eq
    by (simp only: jaccard_commute [of "keyword_set a"] jaccard_commute [of "word_set a"] disj_commute)
  show ?thesis
  proof (cases "note_keywords a = [] \<or> note_keywords b = []")
    case True
    have z: "calculate_similarity a b = 0"
      unfolding calculate_similarity_eq using True by (simp only: if_True)
    show ?thesis using sym True unfolding z by simp
  next
    case False
    have e: "calculate_similarity a b =
       float_add (float_mult (float_literal (6 / 10)) (round_double ?k))
                 (float_mult (float_literal (4 / 10)) (round_double ?t))"
      unfolding calculate_similarity_eq using False by (simp only: if_False)
    from w e sym have "\<bar>calculate_similarity a b - (6 / 10 * ?k + 4 / 10 * ?t)\<bar> \<le> 1 / 2 ^ 50"
      "0 \<le> calculate_similarity a b" "calculate_similarity a b \<le> 1"
      by (simp_all only:)
    then show ?thesis
      using e sym False by (simp only: if_False simp_thms)
  qed
qed

subsection \<open>Deduplication and consolidation\<close>

lemma merge_similar_notes_ok:
  assumes "notes \<noteq> []"
  shows "\<exists>m. merge_similar_notes notes = Inr m"
proof -
  have "length (sort_key last_update_date notes) > 0" using assms by simp
  then obtain x where "py_index (sort_key last_update_date notes) (- 1) = Inr x"
    unfolding py_index_def by (simp del: length_sort)
  then show ?thesis by (simp add: merge_similar_notes_def Let_def)
qed

lemma fold_similar_step:
  assumes "distinct js"
  shows "fold (similar_step s t n) js (xs, m) =
     (xs @ map ((!) s) (filter (\<lambda>j. j \<notin> m \<and> are_memories_similar n (s ! j) t) js),
      m \<union> {j \<in> set js. are_memories_similar n (s ! j) t})"
  using assms
proof (induction js arbitrary: xs m)
  case Nil
  then show ?case by simp
next
  case (Cons j js)
  have js: "distinct js" and j: "j \<notin> set js" using Cons.prems by simp_all
  have step: "fold (similar_step s t n) (j # js) (xs, m)
              = fold (similar_step s t n) js (similar_step s t n j (xs, m))"
    by simp
  show ?case
  proof (cases "j \<notin> m \<and> are_memories_similar n (s ! j) t")
    case True
    have f: "filter (\<lambda>k. k \<notin> insert j m \<and> are_memories_similar n (s ! k) t) js
           = filter (\<lambda>k. k \<notin> m \<and> are_memories_similar n (s ! k) t) js"
      using j by (intro filter_cong) auto
    have st: "similar_step s t n j (xs, m) = (xs @ [s ! j], insert j m)"
      using True by (simp add: similar_step_def)
    have "insert j m \<union> {k \<in> set js. are_memories_similar n (s ! k) t}
          = m \<union> {k \<in> set (j # js). are_memories_similar n (s ! k) t}"
      using True by auto
    then show ?thesis
      unfolding step st Cons.IH [OF js] f using True by simp
  next
    case False
    have st: "similar_step s t n j (xs, m) = (xs, m)"
      using False by (auto simp: similar_step_def)
    have "m \<union> {k \<in> set js. are_memories_similar n (s ! k) t}
          = m \<union> {k \<in> set (j # js). are_memories_similar n (s ! k) t}"
      using False by auto
    then show ?thesis
      unfolding step st Cons.IH [OF js] using False by auto
  qed
qed

lemma find_similar_eq:
  "find_similar s t i m =
     (s ! i # map ((!) s) (filter (\<lambda>j. j \<notin> m \<and> are_memories_similar (s ! i) (s ! j) t) [i + 1 ..< length s]),
      m \<union> {j. i < j \<and> j < length s \<and> are_memories_similar (s ! i) (s ! j) t})"
  unfolding find_similar_def by (subst fold_similar_step) auto

lemma dedup_loop_clusters:
  "dedup_loop s t is m result = Inr (result @ map collapse (dedup_clusters s t is m))"
proof (induction "is" arbitrary: m result)
  case Nil
  show ?case by simp
next
  case (Cons i "is")
  show ?case
  proof (cases "i \<in> m")
    case True
    then show ?thesis by (simp add: Cons.IH)
  next
    case False
    obtain c m' where fs: "find_similar s t i m = (c, m')" by (cases "find_similar s t i m")
    have c: "c \<noteq> []" "hd c = s ! i" using fs by (auto simp: find_similar_eq)
    show ?thesis
    proof (cases "length c > 1")
      case True
      obtain mg where mg: "merge_similar_notes c = Inr mg"
        using merge_similar_notes_ok [OF c(1)] by blast
      show ?thesis using False True by (simp add: fs mg Cons.IH collapse_def)
    next
      case False
      show ?thesis using \<open>i \<notin> m\<close> False c by (simp add: fs Cons.IH collapse_def)
    qed
  qed
qed

lemma deduplicate_memories_clusters:
  "deduplicate_memories notes t = Inr (map collapse (clusters_of notes t))"
  by (cases "notes = []") (simp_all add: deduplicate_memories_def clusters_of_def Let_def dedup_loop_clusters)

lemma length_dedup_clusters: "length (dedup_clusters s t is m) \<le> length is"
proof (induction "is" arbitrary: m)
  case Nil
  show ?case by simp
next
  case (Cons i "is")
  show ?case
  proof (cases "i \<in> m")
    case True
    then show ?thesis using Cons.IH [of m] by simp
  next
    case False
    obtain c m' where fs: "find_similar s t i m = (c, m')" by (cases "find_similar s t i m")
    show ?thesis using False Cons.IH [of m'] by (simp add: fs)
  qed
qed

lemma length_clusters_of: "length (clusters_of notes t) \<le> length notes"
  using length_dedup_clusters [of "sort_key last_update_date notes" t "[0 ..< length notes]" "{}"]
  by (simp add: clusters_of_def Let_def)

lemma consolidate_eq:
  "consolidate_session_memories state =
     (if session_memory state = NotesNone \<or> global_memory state = NotesNone then Inl TypeError
      else (let d = map collapse (clusters_of (map from_dict (notes_of (global_memory state)
                       @ notes_of (session_memory state))) default_threshold);
                b = int (length (notes_of (global_memory state))) + int (length (notes_of (session_memory state)))
            in Inr (state\<lparr>global_memory := Notes (map to_dict d), session_memory := Notes []\<rparr>,
                    \<lparr>before_count = b, after_count = int (length d),
                     merged_count = b - int (length d),
                     session_notes_added = int (length (notes_of (session_memory state)))\<rparr>)))"
  by (simp add: consolidate_session_memories_def get_notes_def notes_of_def Let_def
        deduplicate_memories_clusters split: memory.splits)

text \<open>
  C5: whenever \<open>consolidate_session_memories\<close> returns, the session notes are the
  empty list, the global notes are the deduplicated combined list, \<open>after_count\<close> is
  its length, \<open>before_count\<close> is the number of global plus session notes before the
  call and \<open>merged_count\<close> is their difference; no other field changes. The call
  returns for every state whose two \<open>"notes"\<close> values are lists or missing, and
  raises \<open>TypeError\<close> when one of them is \<open>None\<close>.
\<close>

theorem consolidate_session_memories_spec:
  "(\<forall>state' stats. consolidate_session_memories state = Inr (state', stats) \<longrightarrow>
      session_memory state' = Notes []
      \<and> (\<exists>deduplicated.
            deduplicate_memories (map from_dict (notes_of (global_memory state)
                                     @ notes_of (session_memory state))) default_threshold = Inr deduplicated
            \<and> global_memory state' = Notes (map to_dict deduplicated)
            \<and> after_count stats = int (length deduplicated))
      \<and> before_count stats = int (length (notes_of (global_memory state)))
                              + int (length (notes_of (session_memory state)))
      \<and> merged_count stats = before_count stats - after_count stats
      \<and> state' = state\<lparr>global_memory := global_memory state', session_memory := Notes []\<rparr>)
   \<and> (session_memory state \<noteq> NotesNone \<and> global_memory state \<noteq> NotesNone \<longrightarrow>
        (\<exists>state' stats. consolidate_session_memories state = Inr (state', stats)))
   \<and> (session_memory state = NotesNone \<or> global_memory state = NotesNone \<longrightarrow>
        consolidate_session_memories state = Inl TypeError)"
proof -
  let ?bad = "session_memory state = NotesNone \<or> global_memory state = NotesNone"
  have fail: "consolidate_session_memories state = Inl TypeError" if "?bad"
    using that by (simp only: consolidate_eq if_True)
  have ok: "\<exists>state' stats. consolidate_session_memories state = Inr (state', stats)" if "\<not> ?bad"
    using that by (simp only: consolidate_eq if_False Let_def) blast
  have post: "session_memory state' = Notes []
      \<and> (\<exists>deduplicated.
            deduplicate_memories (map from_dict (notes_of (global_memory state)
                                     @ notes_of (session_memory state))) default_threshold = Inr deduplicated
            \<and> global_memory state' = Notes (map to_dict deduplicated)
            \<and> after_count stats = int (length deduplicated))
      \<and> before_count stats = int (length (notes_of (global_memory state)))
                              + int (length (notes_of (session_memory state)))
      \<and> merged_count stats = before_count stats - after_count stats
      \<and> state' = state\<lparr>global_memory := global_memory state', session_memory := Notes []\<rparr>"
    if r: "consolidate_session_memories state = Inr (state', stats)" for state' stats
  proof -
    have nb: "\<not> ?bad" using r fail by auto
    let ?d = "map collapse (clusters_of (map from_dict (notes_of (global_memory state)
                       @ notes_of (session_memory state))) default_threshold)"
    have d: "deduplicate_memories (map from_dict (notes_of (global_memory state)
                       @ notes_of (session_memory state))) default_threshold = Inr ?d"
      by (rule deduplicate_memories_clusters)
    have s': "state' = state\<lparr>global_memory := Notes (map to_dict ?d), session_memory := Notes []\<rparr>"
      and st: "stats = \<lparr>before_count = int (length (notes_of (global_memory state)))
                                       + int (length (notes_of (session_memory state))),
                      after_count = int (length ?d),
                      merged_count = int (length (notes_of (global_memory state)))
                                       + int (length (notes_of (session_memory state))) - int (length ?d),
                      session_notes_added = int (length (notes_of (session_memory state)))\<rparr>"
      using r nb unfolding consolidate_eq Let_def by simp_all
    show ?thesis
      unfolding d by (simp add: s' st)
  qed
  from fail ok post show ?thesis by blast
qed

theorem consolidate_session_memories_spec_witness:
  "session_memory bar_state \<noteq> NotesNone \<and> global_memory bar_state \<noteq> NotesNone
   \<and> (\<exists>state' stats. consolidate_session_memories bar_state = Inr (state', stats)
         \<and> session_memory state' = Notes []
         \<and> merged_count stats = before_count stats - after_count stats)
   \<and> result_global_notes (consolidate_session_memories bar_state)
       = Inr [mk_note ''User prefers bar chart visualizations'' ''2024-01-01'' [''chart_type'', ''bar'']]"
proof -
  have h: "session_memory bar_state \<noteq> NotesNone \<and> global_memory bar_state \<noteq> NotesNone"
    by (simp add: bar_state_def create_default_def)
  note t = consolidate_session_memories_spec [of bar_state]
  from t h obtain state' stats where r: "consolidate_session_memories bar_state = Inr (state', stats)"
    by blast
  with t have p: "session_memory state' = Notes []"
    "merged_count stats = before_count stats - after_count stats"
    by blast+
  have e: "result_global_notes (consolidate_session_memories bar_state)
       = Inr [mk_note ''User prefers bar chart visualizations'' ''2024-01-01'' [''chart_type'', ''bar'']]"
    by code_simp
  from h r p e show ?thesis by blast
qed

subsection \<open>What consolidation leaves in global memory\<close>

lemma find_similar_parts:
  assumes "find_similar s t i m = (c, m')"
  shows "c \<noteq> []" "hd c = s ! i"
    "\<forall>x \<in> set (tl c). are_memories_similar (s ! i) x t"
    "m' = m \<union> {j. i < j \<and> j < length s \<and> are_memories_similar (s ! i) (s ! j) t}"
  using assms by (auto simp: find_similar_eq)

lemma dedup_clusters_seed:
  assumes "c \<in> set (dedup_clusters s t is m)"
  shows "\<exists>q \<in> set is. q \<notin> m \<and> c \<noteq> [] \<and> hd c = s ! q
           \<and> (\<forall>x \<in> set (tl c). are_memories_similar (hd c) x t)"
  using assms
proof (induction "is" arbitrary: m)
  case Nil
  then show ?case by simp
next
  case (Cons i "is")
  show ?case
  proof (cases "i \<in> m")
    case True
    with Cons.prems have "c \<in> set (dedup_clusters s t is m)" by simp
    from Cons.IH [OF this] show ?thesis by auto
  next
    case False
    obtain c0 m' where fs: "find_similar s t i m = (c0, m')" by (cases "find_similar s t i m")
    note p = find_similar_parts [OF fs]
    from Cons.prems False fs have "c = c0 \<or> c \<in> set (dedup_clusters s t is m')" by simp
    then show ?thesis
    proof
      assume "c = c0"
      then show ?thesis using p False by auto
    next
      assume "c \<in> set (dedup_clusters s t is m')"
      from Cons.IH [OF this] obtain q where q: "q \<in> set is" "q \<notin> m'" "c \<noteq> []" "hd c = s ! q"
        "\<forall>x \<in> set (tl c). are_memories_similar (hd c) x t" by blast
      have "q \<notin> m" using q(2) p(4) by auto
      then show ?thesis using q by auto
    qed
  qed
qed

lemma dedup_clusters_seeds_apart:
  assumes "sorted_wrt (<) is" "\<forall>q \<in> set is. q < length s"
  shows "sorted_wrt (\<lambda>c d. \<not> are_memories_similar (hd c) (hd d) t) (dedup_clusters s t is m)"
  using assms
proof (induction "is" arbitrary: m)
  case Nil
  then show ?case by simp
next
  case (Cons i "is")
  have rest: "sorted_wrt (<) is" "\<forall>q \<in> set is. q < length s" and gt: "\<forall>q \<in> set is. i < q"
    using Cons.prems by auto
  show ?case
  proof (cases "i \<in> m")
    case True
    then show ?thesis using Cons.IH [OF rest] by simp
  next
    case False
    obtain c0 m' where fs: "find_similar s t i m = (c0, m')" by (cases "find_similar s t i m")
    note p = find_similar_parts [OF fs]
    have "\<not> are_memories_similar (hd c0) (hd d) t" if "d \<in> set (dedup_clusters s t is m')" for d
    proof -
      from dedup_clusters_seed [OF that] obtain q where q: "q \<in> set is" "q \<notin> m'" "hd d = s ! q"
        by blast
      have "i < q" "q < length s" using q(1) gt rest(2) by auto
      then have "\<not> are_memories_similar (s ! i) (s ! q) t" using q(2) p(4) by auto
      then show ?thesis by (simp add: p(2) q(3))
    qed
    then show ?thesis using False Cons.IH [OF rest, of m'] by (simp add: fs)
  qed
qed

lemma clusters_of_seeds_apart:
  "a < b \<Longrightarrow> b < length (clusters_of ns t) \<Longrightarrow>
     calculate_similarity (hd (clusters_of ns t ! a)) (hd (clusters_of ns t ! b)) < t"
proof -
  let ?s = "sort_key last_update_date ns"
  assume ab: "a < b" "b < length (clusters_of ns t)"
  have cl: "clusters_of ns t = dedup_clusters ?s t [0 ..< length ?s] {}"
    by (simp add: clusters_of_def Let_def)
  have "sorted_wrt (\<lambda>c d. \<not> are_memories_similar (hd c) (hd d) t) (clusters_of ns t)"
    unfolding cl by (rule dedup_clusters_seeds_apart) simp_all
  then have "\<not> are_memories_similar (hd (clusters_of ns t ! a)) (hd (clusters_of ns t ! b)) t"
    using ab by (simp add: sorted_wrt_iff_nth_less)
  then show ?thesis
    by (simp add: are_memories_similar_def Let_def not_le)
qed

lemma clusters_of_members:
  assumes "c \<in> set (clusters_of ns t)"
  shows "c \<noteq> [] \<and> (\<forall>x \<in> set (tl c). calculate_similarity (hd c) x \<ge> t)"
proof -
  let ?s = "sort_key last_update_date ns"
  have "c \<in> set (dedup_clusters ?s t [0 ..< length ?s] {})"
    using assms by (simp add: clusters_of_def Let_def)
  from dedup_clusters_seed [OF this] show ?thesis
    by (auto simp: are_memories_similar_def Let_def)
qed

lemma collapse_single: "length c = 1 \<Longrightarrow> collapse c = hd c"
  by (simp add: collapse_def)

lemma from_dict_to_dict: "from_dict (to_dict n) = n"
  by (simp add: from_dict_def to_dict_def)

text \<open>
  C1, as stated, fails: a note produced by a merge is not compared again. Of four global
  notes, the first two are merged into a note that carries the text of the second, and
  that note has similarity 0.7 with the third, which stays in the list.
\<close>

theorem consolidate_fixed_point_counterexample:
  "result_global_notes (consolidate_session_memories dup_state)
     = Inr [mk_note ''p q r'' ''2024-01-02'' [''k1''],
            mk_note ''p q r'' ''2024-01-03'' [''k1'', ''k2''],
            mk_note ''w'' ''2024-01-04'' [''z'']]
   \<and> calculate_similarity (mk_note ''p q r'' ''2024-01-02'' [''k1''])
                          (mk_note ''p q r'' ''2024-01-03'' [''k1'', ''k2'']) = float_literal (7 / 10)
   \<and> \<not> (float_literal (7 / 10) < default_threshold)"
  by code_simp

text \<open>
  C1, amended: after \<open>consolidate_session_memories\<close> returns, the global notes are, in
  order, the merges of the clusters the pass forms on the date-sorted notes. Every note
  of a cluster has similarity at least 0.6 with the first note of its cluster, the first
  notes of two different clusters have similarity below 0.6, and so do any two remaining
  notes that both come from one-note clusters.
\<close>

theorem consolidate_seeds_apart:
  assumes "consolidate_session_memories state = Inr (state', stats)"
  shows "let cl = clusters_of (map from_dict (notes_of (global_memory state)
                                 @ notes_of (session_memory state))) default_threshold;
             out = map from_dict (notes_of (global_memory state'))
         in out = map collapse cl
            \<and> (\<forall>a b. a < b \<and> b < length cl \<longrightarrow>
                  calculate_similarity (hd (cl ! a)) (hd (cl ! b)) < default_threshold)
            \<and> (\<forall>c \<in> set cl. c \<noteq> [] \<and> (\<forall>x \<in> set (tl c). default_threshold \<le> calculate_similarity (hd c) x))
            \<and> (\<forall>a b. a < b \<and> b < length cl \<and> length (cl ! a) = 1 \<and> length (cl ! b) = 1 \<longrightarrow>
                  calculate_similarity (out ! a) (out ! b) < default_threshold)"
proof -
  define cl where "cl = clusters_of (map from_dict (notes_of (global_memory state)
                                 @ notes_of (session_memory state))) default_threshold"
  define out where "out = map from_dict (notes_of (global_memory state'))"
  have ok: "\<not> (session_memory state = NotesNone \<or> global_memory state = NotesNone)"
    using assms by (auto simp: consolidate_eq)
  have "state' = state\<lparr>global_memory := Notes (map to_dict (map collapse cl)), session_memory := Notes []\<rparr>"
    using assms ok unfolding consolidate_eq Let_def cl_def by simp
  then have out: "out = map collapse cl"
    by (simp add: out_def notes_of_def comp_def from_dict_to_dict)
  have apart: "calculate_similarity (hd (cl ! a)) (hd (cl ! b)) < default_threshold"
    if "a < b" "b < length cl" for a b
    using that unfolding cl_def by (rule clusters_of_seeds_apart)
  have members: "c \<noteq> [] \<and> (\<forall>x \<in> set (tl c). default_threshold \<le> calculate_similarity (hd c) x)"
    if "c \<in> set cl" for c
    using that unfolding cl_def by (rule clusters_of_members)
  have singles: "calculate_similarity (out ! a) (out ! b) < default_threshold"
    if "a < b" "b < length cl" "length (cl ! a) = 1" "length (cl ! b) = 1" for a b
  proof -
    have "out ! a = hd (cl ! a)" "out ! b = hd (cl ! b)"
      using that by (simp_all add: out collapse_single)
    then show ?thesis using apart [OF that(1,2)] by simp
  qed
  from out apart members singles show ?thesis
    unfolding Let_def cl_def [symmetric] out_def [symmetric] by blast
qed

theorem consolidate_seeds_apart_witness:
  "(\<exists>state' stats. consolidate_session_memories dup_state = Inr (state', stats))
   \<and> calculate_similarity (dup_notes ! 0) (dup_notes ! 2) < default_threshold
   \<and> default_threshold \<le> calculate_similarity (dup_notes ! 0) (dup_notes ! 1)
   \<and> calculate_similarity (dup_notes ! 2) (dup_notes ! 3) < default_threshold"
proof -
  let ?cl = "clusters_of (map from_dict (notes_of (global_memory dup_state)
                                 @ notes_of (session_memory dup_state))) default_threshold"
  have cl: "?cl = [[dup_notes ! 0, dup_notes ! 1], [dup_notes ! 2], [dup_notes ! 3]]"
    by code_simp
  obtain state' stats where r: "consolidate_session_memories dup_state = Inr (state', stats)"
    by (simp add: consolidate_eq dup_state_def create_default_def Let_def)
  note t = consolidate_seeds_apart [OF r, unfolded Let_def cl]
  have 1: "calculate_similarity (dup_notes ! 0) (dup_notes ! 2) < default_threshold"
    using t [THEN conjunct2, THEN conjunct1, rule_format, of 0 1] by simp
  have 2: "default_threshold \<le> calculate_similarity (dup_notes ! 0) (dup_notes ! 1)"
    using t [THEN conjunct2, THEN conjunct2, THEN conjunct1, rule_format, of "[dup_notes ! 0, dup_notes ! 1]"]
    by simp
  have "calculate_similarity (map collapse [[dup_notes ! 0, dup_notes ! 1], [dup_notes ! 2], [dup_notes ! 3]] ! 1)
          (map collapse [[dup_notes ! 0, dup_notes ! 1], [dup_notes ! 2], [dup_notes ! 3]] ! 2) < default_threshold"
    using t [THEN conjunct2, THEN conjunct2, THEN conjunct2, rule_format, of 1 2]
          t [THEN conjunct1] by simp
  then have 3: "calculate_similarity (dup_notes ! 2) (dup_notes ! 3) < default_threshold"
    by (simp add: collapse_single)
  from r 1 2 3 show ?thesis by blast
qed

section \<open>Properties of state\_storage.py\<close>





end
